theory Spec2Isabelle
  imports Main "HOL-Library.Sublist"
begin

section \<open>JavaScript values used by the proxy\<close>

text \<open>
  Strings are lists of code units. A JavaScript string is falsy exactly when it is empty;
  \<open>null\<close> and \<open>undefined\<close> are \<open>None\<close>.
\<close>

definition truthy :: "string option \<Rightarrow> bool" where
  "truthy v = (case v of None \<Rightarrow> False | Some s \<Rightarrow> s \<noteq> [])"

text \<open>\<open>String.prototype.includes\<close>: the needle occurs as a contiguous block.\<close>

fun str_includes :: "string \<Rightarrow> string \<Rightarrow> bool" where
  "str_includes [] n = (n = [])"
| "str_includes (c # cs) n = (prefix n (c # cs) \<or> str_includes cs n)"

text \<open>\<open>a || b\<close> where \<open>a\<close> is a string, \<open>null\<close> or \<open>undefined\<close>, and where it is a number.\<close>

definition orElse :: "string option \<Rightarrow> string \<Rightarrow> string" where
  "orElse v d = (case v of None \<Rightarrow> d | Some s \<Rightarrow> if s = [] then d else s)"

definition numberOr :: "nat option \<Rightarrow> nat \<Rightarrow> nat" where
  "numberOr v d = (case v of None \<Rightarrow> d | Some n \<Rightarrow> if n = 0 then d else n)"

text \<open>A template literal renders \<open>null\<close> as the four characters \<open>null\<close>.\<close>

definition template :: "string option \<Rightarrow> string" where
  "template v = (case v of None \<Rightarrow> ''null'' | Some s \<Rightarrow> s)"

section \<open>The routed proxy (class \<open>WebSocketProxy\<close>)\<close>

text \<open>
  The fields of \<open>WebSocketProxy\<close> that the resolver and the handshake read. \<open>routes\<close> and
  \<open>protocolMap\<close> are plain objects: their own properties in enumeration order, with
  distinct keys. The port and the length of the connection timeout play no part in what
  follows and are left out.
\<close>

record proxy =
  routes :: "(string \<times> string) list"
  protocolMap :: "(string \<times> string) list"
  defaultTarget :: "string option"
  maxRetries :: nat
  retryDelay :: nat

text \<open>The configuration object, each property present or not, and the constructor.\<close>

record config =
  cfg_routes :: "(string \<times> string) list option"
  cfg_protocolMap :: "(string \<times> string) list option"
  cfg_defaultTarget :: "string option"
  cfg_maxRetries :: "nat option"
  cfg_retryDelay :: "nat option"

definition WebSocketProxy :: "config \<Rightarrow> proxy" where
  "WebSocketProxy config =
     \<lparr>routes = (case cfg_routes config of None \<Rightarrow> [] | Some r \<Rightarrow> r),
      protocolMap = (case cfg_protocolMap config of None \<Rightarrow> [] | Some m \<Rightarrow> m),
      defaultTarget = (if truthy (cfg_defaultTarget config) then cfg_defaultTarget config else None),
      maxRetries = numberOr (cfg_maxRetries config) 3,
      retryDelay = numberOr (cfg_retryDelay config) 1000\<rparr>"

text \<open>
  \<open>Object.entries(obj).sort(([a], [b]) => b.length - a.length)\<close>: a stable sort by
  descending key length.
\<close>

definition sortedEntries :: "(string \<times> string) list \<Rightarrow> (string \<times> string) list" where
  "sortedEntries obj = sort_key (\<lambda>e. - int (length (fst e))) obj"

text \<open>The \<open>for ... of\<close> loop returning at the first entry whose key the path starts with.\<close>

definition firstPrefixMatch :: "(string \<times> string) list \<Rightarrow> string \<Rightarrow> string option" where
  "firstPrefixMatch obj pathname =
     map_option snd (find (\<lambda>e. prefix (fst e) pathname) (sortedEntries obj))"

definition getTargetForPath :: "proxy \<Rightarrow> string \<Rightarrow> string option" where
  "getTargetForPath px pathname =
     (if truthy (map_of (routes px) pathname) then map_of (routes px) pathname
      else case firstPrefixMatch (routes px) pathname of
             Some target \<Rightarrow> Some target
           | None \<Rightarrow> defaultTarget px)"

definition getProtocolForPath :: "proxy \<Rightarrow> string \<Rightarrow> string option" where
  "getProtocolForPath px pathname =
     (if truthy (map_of (protocolMap px) pathname) then map_of (protocolMap px) pathname
      else case firstPrefixMatch (protocolMap px) pathname of
             Some protocol \<Rightarrow> Some protocol
           | None \<Rightarrow>
               if str_includes pathname ''graphql'' \<or> str_includes pathname ''subscription''
               then Some ''graphql-transport-ws''
               else None)"

subsection \<open>Building the outbound URL\<close>

text \<open>
  The three components of Node's \<open>url.parse\<close> result that \<open>buildTargetWebSocketUrl\<close>
  reads. The parser belongs to the Node runtime and is a parameter here; it answers \<open>None\<close>
  where it throws.
\<close>

record parsed_url =
  url_host :: "string option"
  url_path :: "string option"
  url_pathname :: "string option"

text \<open>\<open>parsedTarget.path || parsedTarget.pathname || ''\<close>\<close>

definition pathOrEmpty :: "parsed_url \<Rightarrow> string" where
  "pathOrEmpty u = orElse (url_path u) (orElse (url_pathname u) '''')"

definition buildTargetWebSocketUrl ::
  "(string \<Rightarrow> parsed_url option) \<Rightarrow> string \<Rightarrow> string \<Rightarrow> string option" where
  "buildTargetWebSocketUrl url_parse targetUrl queryString =
     (case url_parse targetUrl of
        None \<Rightarrow> None
      | Some parsedTarget \<Rightarrow>
          if prefix ''ws://'' targetUrl \<or> prefix ''wss://'' targetUrl
          then Some (targetUrl @ queryString)
          else
            let protocol = (if prefix ''https://'' targetUrl then ''wss:'' else ''ws:'')
            in Some (protocol @ ''//'' @ template (url_host parsedTarget)
                       @ pathOrEmpty parsedTarget @ queryString))"

subsection \<open>Outbound handshake headers\<close>

text \<open>
  An inbound upgrade request: its header object and the \<open>pathname\<close> and \<open>search\<close> that
  \<open>url.parse(request.url, true)\<close> yields.
\<close>

record request =
  req_headers :: "string \<rightharpoonup> string"
  req_pathname :: string
  req_search :: "string option"

definition headersToForward :: "string list" where
  "headersToForward =
     [''authorization'', ''cookie'', ''user-agent'', ''sec-websocket-protocol'',
      ''sec-websocket-extensions'', ''origin'']"

definition forwardHeader :: "request \<Rightarrow> string \<Rightarrow> (string \<rightharpoonup> string) \<Rightarrow> (string \<rightharpoonup> string)" where
  "forwardHeader rq headerName headers =
     (if truthy (req_headers rq headerName)
      then headers(headerName := req_headers rq headerName)
      else headers)"

definition getProxyHeaders :: "proxy \<Rightarrow> request \<Rightarrow> (string \<rightharpoonup> string)" where
  "getProxyHeaders px rq =
     (let headers = fold (forwardHeader rq) headersToForward Map.empty;
          headers' =
            (if \<not> truthy (headers ''sec-websocket-protocol'')
             then (let protocol = getProtocolForPath px (req_pathname rq)
                   in if truthy protocol
                      then headers(''sec-websocket-protocol'' := protocol)
                      else headers)
             else headers)
      in headers'(''sec-websocket-version'' \<mapsto> ''13'',
                  ''connection'' \<mapsto> ''Upgrade'',
                  ''upgrade'' \<mapsto> ''websocket''))"

text \<open>
  The header object that \<open>attemptConnection\<close> hands to \<open>new WebSocket\<close>: the result of
  \<open>getProxyHeaders\<close>, with the subprotocol header overwritten whenever the configuration
  resolves a protocol for the path.
\<close>

definition handshakeHeaders :: "proxy \<Rightarrow> request \<Rightarrow> (string \<rightharpoonup> string)" where
  "handshakeHeaders px rq =
     (let protocol = getProtocolForPath px (req_pathname rq);
          headers = getProxyHeaders px rq
      in if truthy protocol
         then headers(''sec-websocket-protocol'' := protocol)
         else headers)"

text \<open>
  The URL that \<open>attemptConnection\<close> connects to:
  \<open>this.buildTargetWebSocketUrl(targetUrl, parsedUrl.search || '')\<close>.
\<close>

definition targetWsUrl ::
  "(string \<Rightarrow> parsed_url option) \<Rightarrow> string \<Rightarrow> request \<Rightarrow> string option" where
  "targetWsUrl url_parse targetUrl rq =
     buildTargetWebSocketUrl url_parse targetUrl (orElse (req_search rq) '''')"

section \<open>The upgrade handshake (\<open>setupWebSocketUpgrade\<close>, \<open>handleWebSocketUpgrade\<close>)\<close>

datatype readyState = CONNECTING | OPEN | CLOSING | CLOSED

text \<open>An \<open>Error\<close> object as the handlers read it: \<open>error.code\<close> and \<open>error.message\<close>.\<close>

record ws_error =
  err_code :: "string option"
  err_message :: string

definition isAuthenticationError :: "ws_error \<Rightarrow> bool" where
  "isAuthenticationError e =
     (str_includes (err_message e) ''401'' \<or> str_includes (err_message e) ''403'')"

definition isTemporaryError :: "ws_error \<Rightarrow> bool" where
  "isTemporaryError e =
     (err_code e = Some ''ECONNREFUSED'' \<or> err_code e = Some ''ENOTFOUND''
      \<or> err_code e = Some ''ETIMEDOUT''
      \<or> str_includes (err_message e) ''Unexpected server response'')"

definition CRLF :: string where
  "CRLF = [CHR 0x0D, CHR 0x0A]"

definition notFound :: string where
  "notFound = ''HTTP/1.1 404 Not Found'' @ CRLF @ CRLF"

definition unauthorized :: string where
  "unauthorized = ''HTTP/1.1 401 Unauthorized'' @ CRLF @ CRLF"

definition badGateway :: string where
  "badGateway = ''HTTP/1.1 502 Bad Gateway'' @ CRLF @ CRLF"

definition gatewayTimeout :: string where
  "gatewayTimeout = ''HTTP/1.1 504 Gateway Timeout'' @ CRLF @ CRLF"

text \<open>
  The variables that one call of \<open>attemptConnection\<close> closes over: its two flags, its
  timeout handle (\<open>True\<close> while the timer is pending), the outbound socket's
  \<open>readyState\<close> with the number of \<open>targetWs.close()\<close> calls, and \<open>clientWs\<close>
  (\<open>None\<close> for \<open>null\<close>) with the \<open>clientWs.close(code, reason)\<close> calls.
\<close>

record attempt =
  isUpgraded :: bool
  connectionClosed :: bool
  connectionTimeout :: bool
  targetWs :: readyState
  targetWsClose :: nat
  clientWs :: "readyState option"
  clientWsClose :: "(nat \<times> string) list"

text \<open>
  One call of \<open>handleWebSocketUpgrade\<close>: the shared counter \<open>retries\<close>, the attempts that
  reached \<open>new WebSocket\<close>, the number of pending retry timers and every delay handed to
  \<open>setTimeout\<close> for a retry, what was written to the inbound socket and whether it was
  destroyed, how often the \<open>handleUpgrade\<close> callback ran and how often
  \<open>establishWebSocketProxy\<close> installed a relay.
\<close>

record session =
  retries :: nat
  attempts :: "attempt list"
  pendingRetries :: nat
  scheduled :: "nat list"
  socketWrites :: "string list"
  socketDestroyed :: bool
  upgrades :: nat
  relaySessions :: nat

definition initSession :: session where
  "initSession = \<lparr>retries = 0, attempts = [], pendingRetries = 0, scheduled = [],
                   socketWrites = [], socketDestroyed = False, upgrades = 0, relaySessions = 0\<rparr>"

definition newAttempt :: attempt where
  "newAttempt = \<lparr>isUpgraded = False, connectionClosed = False, connectionTimeout = True,
                  targetWs = CONNECTING, targetWsClose = 0, clientWs = None, clientWsClose = []\<rparr>"

text \<open>\<open>retries++; setTimeout(() => attemptConnection(), this.retryDelay * retries)\<close>\<close>

definition scheduleRetry :: "proxy \<Rightarrow> session \<Rightarrow> session" where
  "scheduleRetry px s =
     s\<lparr>retries := retries s + 1,
       pendingRetries := pendingRetries s + 1,
       scheduled := scheduled s @ [retryDelay px * (retries s + 1)]\<rparr>"

text \<open>\<open>socket.write(line); socket.destroy()\<close>\<close>

definition respond :: "string \<Rightarrow> session \<Rightarrow> session" where
  "respond line s = s\<lparr>socketWrites := socketWrites s @ [line], socketDestroyed := True\<rparr>"

text \<open>
  \<open>if (targetWs.readyState !== WebSocket.CLOSED) targetWs.close()\<close>; a socket that was
  asked to close is \<open>CLOSING\<close>.
\<close>

definition closeTarget :: "attempt \<Rightarrow> attempt" where
  "closeTarget a =
     (if targetWs a \<noteq> CLOSED
      then a\<lparr>targetWs := CLOSING, targetWsClose := targetWsClose a + 1\<rparr>
      else a)"

definition closeClient :: "nat \<Rightarrow> string \<Rightarrow> attempt \<Rightarrow> attempt" where
  "closeClient code reason a =
     a\<lparr>clientWs := Some CLOSING, clientWsClose := clientWsClose a @ [(code, reason)]\<rparr>"

definition setAttempt :: "nat \<Rightarrow> attempt \<Rightarrow> session \<Rightarrow> session" where
  "setAttempt i a s = s\<lparr>attempts := (attempts s)[i := a]\<rparr>"

text \<open>
  \<open>attemptConnection\<close>. The flag says whether the body of its \<open>try\<close> block ran to the end;
  everything that can throw there (\<open>url.parse\<close>, \<open>new WebSocket\<close>) comes before the first
  handler is registered, so a throw leaves no attempt behind and runs the \<open>catch\<close> branch.
\<close>

definition attemptConnection :: "proxy \<Rightarrow> bool \<Rightarrow> session \<Rightarrow> session" where
  "attemptConnection px ok s =
     (if ok then s\<lparr>attempts := attempts s @ [newAttempt]\<rparr>
      else if retries s < maxRetries px then scheduleRetry px s
      else respond badGateway s)"

definition handleWebSocketUpgrade :: "proxy \<Rightarrow> bool \<Rightarrow> session" where
  "handleWebSocketUpgrade px ok = attemptConnection px ok initSession"

text \<open>The \<open>'upgrade'\<close> listener installed by \<open>setupWebSocketUpgrade\<close>.\<close>

definition onUpgrade :: "proxy \<Rightarrow> request \<Rightarrow> bool \<Rightarrow> session" where
  "onUpgrade px rq ok =
     (if \<not> truthy (getTargetForPath px (req_pathname rq))
      then respond notFound initSession
      else handleWebSocketUpgrade px ok)"

text \<open>The callback of \<open>connectionTimeout\<close>; a timer that was cleared or has fired is gone.\<close>

definition onConnectionTimeout :: "proxy \<Rightarrow> nat \<Rightarrow> session \<Rightarrow> session" where
  "onConnectionTimeout px i s =
     (let a = attempts s ! i in
      if \<not> connectionTimeout a then s
      else if \<not> isUpgraded a \<and> \<not> connectionClosed a then
        (if retries s < maxRetries px
         then scheduleRetry px
                (setAttempt i (a\<lparr>connectionTimeout := False, connectionClosed := True\<rparr>) s)
         else respond gatewayTimeout
                (setAttempt i
                   (closeTarget (a\<lparr>connectionTimeout := False, connectionClosed := True\<rparr>)) s))
      else setAttempt i (a\<lparr>connectionTimeout := False\<rparr>) s)"

text \<open>
  What \<open>wss.handleUpgrade\<close> of the \<open>ws\<close> library does with the inbound socket: it runs
  the callback before it returns, or it throws, or it returns without running it.
\<close>

datatype handleUpgrade = Callback | Throws | NoCallback

text \<open>
  \<open>establishWebSocketProxy\<close> installs the relay unless one of the two sockets is already
  \<open>CLOSED\<close>.
\<close>

definition established :: "readyState \<Rightarrow> readyState \<Rightarrow> bool" where
  "established c t = (\<not> (c = CLOSED \<or> t = CLOSED))"

text \<open>The \<open>'open'\<close> listener of \<open>targetWs\<close>; the socket is \<open>OPEN\<close> when it runs.\<close>

definition onTargetOpen :: "nat \<Rightarrow> handleUpgrade \<Rightarrow> session \<Rightarrow> session" where
  "onTargetOpen i hu s =
     (let a = (attempts s ! i)\<lparr>targetWs := OPEN\<rparr> in
      if connectionClosed a then setAttempt i a s
      else if \<not> isUpgraded a then
        (case hu of
           Callback \<Rightarrow>
             (setAttempt i
                (a\<lparr>connectionTimeout := False, clientWs := Some OPEN, isUpgraded := True\<rparr>) s)
             \<lparr>upgrades := upgrades s + 1,
              relaySessions := relaySessions s + (if established OPEN (targetWs a) then 1 else 0)\<rparr>
         | Throws \<Rightarrow>
             (setAttempt i
                (closeTarget (a\<lparr>connectionTimeout := False, connectionClosed := True\<rparr>)) s)
             \<lparr>socketDestroyed := True\<rparr>
         | NoCallback \<Rightarrow> setAttempt i (a\<lparr>connectionTimeout := False\<rparr>) s)
      else setAttempt i (a\<lparr>connectionTimeout := False\<rparr>) s)"

text \<open>The \<open>'error'\<close> listener of \<open>targetWs\<close>; the socket is \<open>CLOSING\<close> when it runs.\<close>

definition onTargetError :: "proxy \<Rightarrow> nat \<Rightarrow> ws_error \<Rightarrow> session \<Rightarrow> session" where
  "onTargetError px i e s =
     (let a = (attempts s ! i)\<lparr>targetWs := CLOSING\<rparr> in
      if connectionClosed a then setAttempt i a s
      else if isAuthenticationError e then
        (let s' = setAttempt i (a\<lparr>connectionTimeout := False, connectionClosed := True\<rparr>) s
         in if \<not> isUpgraded a then respond unauthorized s' else s')
      else if isTemporaryError e \<and> retries s < maxRetries px \<and> \<not> isUpgraded a then
        scheduleRetry px (setAttempt i (a\<lparr>connectionTimeout := False\<rparr>) s)
      else
        (let a' = a\<lparr>connectionTimeout := False, connectionClosed := True\<rparr>
         in if \<not> isUpgraded a then respond badGateway (setAttempt i a' s)
            else if clientWs a = Some OPEN
            then setAttempt i
                   (closeClient (if err_code e = Some ''ECONNREFUSED'' then 1006 else 1011)
                      ''Target server connection error'' a') s
            else setAttempt i a' s))"

text \<open>The \<open>'error'\<close> listeners of the inbound socket: every attempt registered one.\<close>

definition onSocketError :: "attempt \<Rightarrow> attempt" where
  "onSocketError a =
     (if connectionClosed a then a
      else closeTarget (a\<lparr>connectionTimeout := False, connectionClosed := True\<rparr>))"

text \<open>
  What can happen to a session, each event naming the attempt it belongs to by its index:
  the outbound socket emits \<open>'open'\<close> (with what \<open>handleUpgrade\<close> will do) or \<open>'error'\<close>; the
  connection timeout fires; a retry timer fires (with whether the new attempt can be set
  up); the inbound socket emits \<open>'error'\<close>; the library or the peer moves a socket to another
  \<open>readyState\<close>. An event for an attempt that does not exist and a timer that is not pending
  change nothing.
\<close>

datatype event =
    TargetOpen nat handleUpgrade
  | TargetError nat ws_error
  | ConnectionTimeout nat
  | RetryTimer bool
  | SocketError
  | TargetReadyState nat readyState
  | ClientReadyState nat readyState

fun step :: "proxy \<Rightarrow> event \<Rightarrow> session \<Rightarrow> session" where
  "step px (TargetOpen i hu) s = (if i < length (attempts s) then onTargetOpen i hu s else s)"
| "step px (TargetError i e) s = (if i < length (attempts s) then onTargetError px i e s else s)"
| "step px (ConnectionTimeout i) s =
     (if i < length (attempts s) then onConnectionTimeout px i s else s)"
| "step px (RetryTimer ok) s =
     (if 0 < pendingRetries s
      then attemptConnection px ok (s\<lparr>pendingRetries := pendingRetries s - 1\<rparr>)
      else s)"
| "step px SocketError s = s\<lparr>attempts := map onSocketError (attempts s)\<rparr>"
| "step px (TargetReadyState i st) s =
     (if i < length (attempts s) then setAttempt i ((attempts s ! i)\<lparr>targetWs := st\<rparr>) s else s)"
| "step px (ClientReadyState i st) s =
     (if i < length (attempts s) \<and> clientWs (attempts s ! i) \<noteq> None
      then setAttempt i ((attempts s ! i)\<lparr>clientWs := Some st\<rparr>) s else s)"

fun run :: "proxy \<Rightarrow> event list \<Rightarrow> session \<Rightarrow> session" where
  "run px [] s = s"
| "run px (ev # evs) s = run px evs (step px ev s)"

text \<open>
  What the \<open>ws\<close> library and the timers allow: a socket emits \<open>'open'\<close> and \<open>'error'\<close>
  only while it is \<open>CONNECTING\<close> or \<open>OPEN\<close> (a repeated \<open>'open'\<close> on an open socket is
  admitted: it is the duplicate delivery that the idempotency flag is there for), and a
  \<open>readyState\<close> only advances.
\<close>

fun rank :: "readyState \<Rightarrow> nat" where
  "rank CONNECTING = 0"
| "rank OPEN = 1"
| "rank CLOSING = 2"
| "rank CLOSED = 3"

definition emitting :: "readyState \<Rightarrow> bool" where
  "emitting st = (st = CONNECTING \<or> st = OPEN)"

fun enabled :: "session \<Rightarrow> event \<Rightarrow> bool" where
  "enabled s (TargetOpen i hu) = (i < length (attempts s) \<and> emitting (targetWs (attempts s ! i)))"
| "enabled s (TargetError i e) = (i < length (attempts s) \<and> emitting (targetWs (attempts s ! i)))"
| "enabled s (TargetReadyState i st) =
     (i < length (attempts s) \<and> rank (targetWs (attempts s ! i)) \<le> rank st)"
| "enabled s ev = True"

fun admissible :: "proxy \<Rightarrow> session \<Rightarrow> event list \<Rightarrow> bool" where
  "admissible px s [] = True"
| "admissible px s (ev # evs) = (enabled s ev \<and> admissible px (step px ev s) evs)"

text \<open>
  The session in which every attempt ends in an \<open>'error'\<close> event: the error of attempt
  \<open>i\<close>, then the retry timer, then the error of attempt \<open>i + 1\<close>, and so on.
\<close>

fun errorTrace :: "nat \<Rightarrow> ws_error list \<Rightarrow> event list" where
  "errorTrace i [] = []"
| "errorTrace i (e # es) = TargetError i e # RetryTimer True # errorTrace (Suc i) es"

section \<open>The relay (\<open>establishWebSocketProxy\<close>)\<close>

text \<open>
  The relay is a state machine of its own over the two sockets. The \<open>'error'\<close> listener
  that \<open>attemptConnection\<close> left on \<open>targetWs\<close> runs before the relay's; what it does to
  the client socket reaches the relay as a change of that socket's \<open>readyState\<close>.
\<close>

datatype side = Client | Target

fun other :: "side \<Rightarrow> side" where
  "other Client = Target"
| "other Target = Client"

text \<open>
  The \<open>data\<close> of a \<open>'message'\<close> event and the argument of \<open>send\<close>: a \<open>Buffer\<close> of bytes
  or a string.
\<close>

datatype payload = Buffer string | Str string

text \<open>
  \<open>data.toString()\<close>. Decoding the bytes of a \<open>Buffer\<close> is the runtime's business and a
  parameter here.
\<close>

fun toString :: "(string \<Rightarrow> string) \<Rightarrow> payload \<Rightarrow> payload" where
  "toString decode (Buffer b) = Str (decode b)"
| "toString decode (Str s) = Str s"

text \<open>
  The \<open>reason\<close> of a \<open>'close'\<close> event: a \<open>Buffer\<close> (an object, always truthy), a string
  (falsy when empty) or \<open>undefined\<close>; and \<open>reason ? reason.toString() : 'no reason'\<close>.
\<close>

datatype close_reason = ReasonBuffer string | ReasonString string | ReasonUndefined

fun reasonStr :: "close_reason \<Rightarrow> string" where
  "reasonStr (ReasonBuffer b) = b"
| "reasonStr (ReasonString s) = (if s = [] then ''no reason'' else s)"
| "reasonStr ReasonUndefined = ''no reason''"

text \<open>The argument of \<open>cleanup\<close>, and the lines it logs: the reason and both counters.\<close>

datatype cleanup_reason =
    ClientClosed nat string
  | TargetClosed nat string
  | ClientErrored string
  | TargetErrored string
  | SendErrored string

record relay =
  isProxyActive :: bool
  clientToTarget :: nat
  targetToClient :: nat
  stateOf :: "side \<Rightarrow> readyState"
  sent :: "side \<Rightarrow> payload list"
  closeCalls :: "side \<Rightarrow> (nat \<times> string) list"
  pings :: "side \<Rightarrow> nat"
  pingInterval :: bool
  cleanupLog :: "(cleanup_reason \<times> nat \<times> nat) list"
  warnings :: "side list"

text \<open>
  \<open>establishWebSocketProxy(clientWs, targetWs, pathname)\<close> with the two sockets in the given
  states: nothing is installed when one of them is \<open>CLOSED\<close>.
\<close>

definition establishWebSocketProxy :: "readyState \<Rightarrow> readyState \<Rightarrow> relay option" where
  "establishWebSocketProxy c t =
     (if c = CLOSED \<or> t = CLOSED then None
      else Some \<lparr>isProxyActive = True, clientToTarget = 0, targetToClient = 0,
                 stateOf = (\<lambda>sd. case sd of Client \<Rightarrow> c | Target \<Rightarrow> t),
                 sent = (\<lambda>sd. []), closeCalls = (\<lambda>sd. []), pings = (\<lambda>sd. 0),
                 pingInterval = True, cleanupLog = [], warnings = []\<rparr>)"

definition cleanup :: "cleanup_reason \<Rightarrow> relay \<Rightarrow> relay" where
  "cleanup reason r =
     (if isProxyActive r
      then r\<lparr>cleanupLog := cleanupLog r @ [(reason, clientToTarget r, targetToClient r)],
             isProxyActive := False\<rparr>
      else r)"

text \<open>\<open>ws.close(code, reason)\<close> on the given side, which is \<open>CLOSING\<close> afterwards.\<close>

definition wsClose :: "side \<Rightarrow> nat \<Rightarrow> string \<Rightarrow> relay \<Rightarrow> relay" where
  "wsClose sd code reason r =
     r\<lparr>closeCalls := (closeCalls r)(sd := closeCalls r sd @ [(code, reason)]),
       stateOf := (stateOf r)(sd := CLOSING)\<rparr>"

text \<open>\<open>if (ws && ws.readyState === WebSocket.OPEN) ws.close(code, reason)\<close>\<close>

definition closeIfOpen :: "side \<Rightarrow> nat \<Rightarrow> string \<Rightarrow> relay \<Rightarrow> relay" where
  "closeIfOpen sd code reason r = (if stateOf r sd = OPEN then wsClose sd code reason r else r)"

datatype send_result = Sent | SendThrows ws_error

definition countMessage :: "side \<Rightarrow> relay \<Rightarrow> relay" where
  "countMessage from r =
     (if from = Client then r\<lparr>clientToTarget := clientToTarget r + 1\<rparr>
      else r\<lparr>targetToClient := targetToClient r + 1\<rparr>)"

text \<open>
  \<open>forwardMessage(from, to, data, direction)\<close>, where \<open>to\<close> is the other side of \<open>from\<close>.
  The first argument is what the function hands to \<open>to.send\<close>: \<open>data\<close> in
  \<open>WebSocketProxy\<close> and \<open>data.toString()\<close> in \<open>Proxy\<close>; the rest of the two functions is
  the same text.
\<close>

definition forwardMessage ::
  "(payload \<Rightarrow> payload) \<Rightarrow> side \<Rightarrow> payload \<Rightarrow> send_result \<Rightarrow> relay \<Rightarrow> relay" where
  "forwardMessage arg from data res r =
     (if \<not> isProxyActive r then r
      else if stateOf r (other from) \<noteq> OPEN then r\<lparr>warnings := warnings r @ [from]\<rparr>
      else case res of
             Sent \<Rightarrow>
               countMessage from
                 (r\<lparr>sent := (sent r)(other from := sent r (other from) @ [arg data])\<rparr>)
           | SendThrows error \<Rightarrow>
               if err_code error = Some ''EPIPE''
                  \<or> str_includes (err_message error) ''not connected''
               then closeIfOpen from 1006 ''Connection lost''
                      (cleanup (SendErrored (err_message error)) r)
               else r)"

definition forwardMessage_WebSocketProxy ::
  "side \<Rightarrow> payload \<Rightarrow> send_result \<Rightarrow> relay \<Rightarrow> relay" where
  "forwardMessage_WebSocketProxy = forwardMessage (\<lambda>data. data)"

definition forwardMessage_Proxy ::
  "(string \<Rightarrow> string) \<Rightarrow> side \<Rightarrow> payload \<Rightarrow> send_result \<Rightarrow> relay \<Rightarrow> relay" where
  "forwardMessage_Proxy decode = forwardMessage (toString decode)"

text \<open>The \<open>'close'\<close> listeners; the socket that emits \<open>'close'\<close> is \<open>CLOSED\<close>.\<close>

definition onClose :: "side \<Rightarrow> nat \<Rightarrow> close_reason \<Rightarrow> relay \<Rightarrow> relay" where
  "onClose sd code reason r =
     (let r' = cleanup (case sd of Client \<Rightarrow> ClientClosed code (reasonStr reason)
                                 | Target \<Rightarrow> TargetClosed code (reasonStr reason))
                 (r\<lparr>stateOf := (stateOf r)(sd := CLOSED)\<rparr>)
      in closeIfOpen (other sd) (if code = 0 then 1000 else code) (reasonStr reason) r')"

text \<open>The \<open>'error'\<close> listeners that the relay adds to the two sockets.\<close>

definition onError :: "side \<Rightarrow> ws_error \<Rightarrow> relay \<Rightarrow> relay" where
  "onError sd error r =
     (case sd of
        Client \<Rightarrow>
          closeIfOpen Target 1011 ''Client connection error''
            (cleanup (ClientErrored (err_message error)) r)
      | Target \<Rightarrow>
          closeIfOpen Client
            (if err_code error = Some ''ECONNRESET'' then 1006
             else if err_code error = Some ''ETIMEDOUT'' then 1001
             else 1011)
            (''Target error: '' @ err_message error)
            (cleanup (TargetErrored (err_message error)) r))"

text \<open>\<open>ws.ping()\<close>; an exception it throws is caught and logged, nothing else.\<close>

definition pingIfOpen :: "side \<Rightarrow> relay \<Rightarrow> relay" where
  "pingIfOpen sd r = (if stateOf r sd = OPEN then r\<lparr>pings := (pings r)(sd := pings r sd + 1)\<rparr> else r)"

text \<open>The callback of \<open>setInterval\<close>; an interval that was cleared does not fire.\<close>

definition onPingInterval :: "relay \<Rightarrow> relay" where
  "onPingInterval r =
     (if \<not> pingInterval r then r
      else if \<not> isProxyActive r then r\<lparr>pingInterval := False\<rparr>
      else pingIfOpen Client (pingIfOpen Target r))"

datatype relay_event =
    Message side payload send_result
  | Close side nat close_reason
  | Error side ws_error
  | PingInterval
  | ReadyState side readyState

fun relayStep :: "(payload \<Rightarrow> payload) \<Rightarrow> relay_event \<Rightarrow> relay \<Rightarrow> relay" where
  "relayStep arg (Message from data res) r = forwardMessage arg from data res r"
| "relayStep arg (Close sd code reason) r = onClose sd code reason r"
| "relayStep arg (Error sd error) r = onError sd error r"
| "relayStep arg PingInterval r = onPingInterval r"
| "relayStep arg (ReadyState sd st) r = r\<lparr>stateOf := (stateOf r)(sd := st)\<rparr>"

fun relayRun :: "(payload \<Rightarrow> payload) \<Rightarrow> relay_event list \<Rightarrow> relay \<Rightarrow> relay" where
  "relayRun arg [] r = r"
| "relayRun arg (ev # evs) r = relayRun arg evs (relayStep arg ev r)"

section \<open>Predicates used in the proofs\<close>


text \<open>
  An attempt is live while one of its callbacks can still act: it is not flagged closed, and
  its timer is pending or its socket still emits.
\<close>

definition live :: "attempt \<Rightarrow> bool" where
  "live a = (\<not> connectionClosed a \<and> (connectionTimeout a \<or> emitting (targetWs a)))"

definition okTimer :: "attempt \<Rightarrow> bool" where
  "okTimer a = (connectionTimeout a \<longrightarrow> \<not> isUpgraded a \<and> \<not> connectionClosed a)"

definition tok :: "session \<Rightarrow> nat \<Rightarrow> bool" where
  "tok s i = (i < length (attempts s) \<and> live (attempts s ! i))"

text \<open>
  The invariant of a session: at most one live attempt or one pending retry timer, never
  both; at most one upgrade, and none while a retry is pending or a live attempt is not yet
  upgraded.
\<close>

definition handshakeInv :: "session \<Rightarrow> bool" where
  "handshakeInv s =
     (pendingRetries s \<le> 1
      \<and> (\<forall>i j. tok s i \<and> tok s j \<longrightarrow> i = j)
      \<and> (pendingRetries s = 1 \<longrightarrow> (\<forall>i. \<not> tok s i))
      \<and> upgrades s \<le> 1
      \<and> (upgrades s = 1 \<longrightarrow> pendingRetries s = 0 \<and> (\<forall>i. tok s i \<longrightarrow> isUpgraded (attempts s ! i)))
      \<and> (\<forall>a\<in>set (attempts s). isUpgraded a \<longrightarrow> upgrades s = 1)
      \<and> (\<forall>a\<in>set (attempts s). okTimer a)
      \<and> relaySessions s = upgrades s)"


text \<open>A session in which no callback can act any more.\<close>

definition finished :: "session \<Rightarrow> bool" where
  "finished s = (pendingRetries s = 0
                 \<and> (\<forall>a\<in>set (attempts s). connectionClosed a \<and> \<not> connectionTimeout a))"

definition statusLines :: "string set" where
  "statusLines = {notFound, unauthorized, badGateway, gatewayTimeout}"

text \<open>
  The status line, if any, that an event makes the session write, stated by its cause: 504
  for a timeout with no retry left, 401 for an authentication error, 502 for another error
  that is not retried and for an attempt that cannot be started with no retry left; always
  on behalf of an attempt that is neither flagged closed nor upgraded.
\<close>

definition response :: "proxy \<Rightarrow> session \<Rightarrow> event \<Rightarrow> string option" where
  "response px s ev =
     (case ev of
        ConnectionTimeout i \<Rightarrow>
          if i < length (attempts s) \<and> connectionTimeout (attempts s ! i)
             \<and> \<not> connectionClosed (attempts s ! i) \<and> \<not> isUpgraded (attempts s ! i)
             \<and> maxRetries px \<le> retries s
          then Some gatewayTimeout else None
      | TargetError i e \<Rightarrow>
          if i < length (attempts s)
             \<and> \<not> connectionClosed (attempts s ! i) \<and> \<not> isUpgraded (attempts s ! i)
          then (if isAuthenticationError e then Some unauthorized
                else if isTemporaryError e \<and> retries s < maxRetries px then None
                else Some badGateway)
          else None
      | RetryTimer ok \<Rightarrow>
          if 0 < pendingRetries s \<and> \<not> ok \<and> maxRetries px \<le> retries s
          then Some badGateway else None
      | _ \<Rightarrow> None)"


definition relayInv :: "relay \<Rightarrow> bool" where
  "relayInv r = (if isProxyActive r then cleanupLog r = [] \<and> pingInterval r
                 else length (cleanupLog r) = 1)"

section \<open>Example configurations and inputs\<close>

definition px0 :: proxy where
  "px0 = \<lparr>routes = [(''/api'', ''A''), (''/api/graphql'', ''B'')], protocolMap = [],
          defaultTarget = Some ''D'', maxRetries = 2, retryDelay = 1000\<rparr>"

definition px1 :: proxy where
  "px1 = \<lparr>routes = [(''/ws/graphql'', ''wss://api.aion.to/ws/graphql'')],
          protocolMap = [(''/ws/graphql'', ''graphql-transport-ws'')],
          defaultTarget = Some ''https://api.aion.to'', maxRetries = 3, retryDelay = 1000\<rparr>"

definition px2 :: proxy where
  "px2 = WebSocketProxy
           \<lparr>cfg_routes = Some [(''/ws/graphql'', ''wss://api.aion.to/ws/graphql'')],
            cfg_protocolMap = Some [(''/ws/graphql'', ''graphql-transport-ws'')],
            cfg_defaultTarget = None, cfg_maxRetries = Some 2, cfg_retryDelay = None\<rparr>"

definition pxNone :: proxy where
  "pxNone = \<lparr>routes = [(''/ws/graphql'', ''wss://api.aion.to/ws/graphql'')],
             protocolMap = [], defaultTarget = None, maxRetries = 3, retryDelay = 1000\<rparr>"

definition rq0 :: request where
  "rq0 = \<lparr>req_headers = [''sec-websocket-protocol'' \<mapsto> ''graphql-ws'', ''host'' \<mapsto> ''localhost:8080''],
          req_pathname = ''/ws/graphql'', req_search = Some ''?token=abc''\<rparr>"

definition rqOther :: request where
  "rqOther = \<lparr>req_headers = Map.empty, req_pathname = ''/other'', req_search = None\<rparr>"

definition url_parse0 :: "string \<Rightarrow> parsed_url option" where
  "url_parse0 t =
     (if t = ''https://api.aion.to/graphql''
      then Some \<lparr>url_host = Some ''api.aion.to'', url_path = Some ''/graphql'',
                 url_pathname = Some ''/graphql''\<rparr>
      else if t = ''http://localhost:4000''
      then Some \<lparr>url_host = Some ''localhost:4000'', url_path = Some ''/'',
                 url_pathname = Some ''/''\<rparr>
      else if t = ''wss://api.aion.to/ws/graphql''
      then Some \<lparr>url_host = Some ''api.aion.to'', url_path = Some ''/ws/graphql'',
                 url_pathname = Some ''/ws/graphql''\<rparr>
      else None)"

definition reset :: ws_error where
  "reset = \<lparr>err_code = Some ''ECONNRESET'', err_message = ''socket hang up''\<rparr>"

definition refused :: ws_error where
  "refused = \<lparr>err_code = Some ''ECONNREFUSED'',
              err_message = ''connect ECONNREFUSED 127.0.0.1:9000''\<rparr>"

definition rejected :: ws_error where
  "rejected = \<lparr>err_code = None, err_message = ''Unexpected server response: 401''\<rparr>"

definition relay0 :: relay where
  "relay0 = the (establishWebSocketProxy OPEN OPEN)"

section \<open>Route resolution\<close>

lemma sortedEntries_nth_mono:
  assumes "i < j" "j < length (sortedEntries obj)"
  shows "length (fst (sortedEntries obj ! j)) \<le> length (fst (sortedEntries obj ! i))"
proof -
  have "sorted (map (\<lambda>e. - int (length (fst e))) (sortedEntries obj))"
    unfolding sortedEntries_def by (rule sorted_sort_key)
  from sorted_nth_mono[OF this, of i j] assms show ?thesis by simp
qed

lemma firstPrefixMatch_None:
  "(\<forall>e\<in>set obj. \<not> prefix (fst e) p) \<Longrightarrow> firstPrefixMatch obj p = None"
  by (auto simp add: firstPrefixMatch_def find_None_iff sortedEntries_def)

lemma firstPrefixMatch_longest:
  assumes d: "distinct (map fst obj)"
    and mem: "(r, t) \<in> set obj"
    and pre: "prefix r p"
    and mx: "\<forall>e\<in>set obj. prefix (fst e) p \<longrightarrow> length (fst e) \<le> length r"
  shows "firstPrefixMatch obj p = Some t"
proof -
  let ?xs = "sortedEntries obj"
  have set_eq: "set ?xs = set obj" by (simp add: sortedEntries_def)
  from mem set_eq obtain k where k: "k < length ?xs" "?xs ! k = (r, t)"
    by (metis in_set_conv_nth)
  have "\<exists>e. find (\<lambda>e. prefix (fst e) p) ?xs = Some e"
  proof (cases "find (\<lambda>e. prefix (fst e) p) ?xs")
    case None
    then have "\<not> prefix (fst (r, t)) p" using mem set_eq by (auto simp: find_None_iff)
    with pre show ?thesis by simp
  qed simp
  then obtain e where e: "find (\<lambda>e. prefix (fst e) p) ?xs = Some e" ..
  then obtain i where i: "i < length ?xs" "prefix (fst (?xs ! i)) p" "e = ?xs ! i"
    "\<forall>j<i. \<not> prefix (fst (?xs ! j)) p"
    by (auto simp: find_Some_iff)
  have e_mem: "e \<in> set obj" using i set_eq by (metis nth_mem)
  have le1: "length (fst e) \<le> length r" using mx e_mem i by blast
  have "\<not> k < i" using i(4) k pre by auto
  then have "i \<le> k" by simp
  have le2: "length r \<le> length (fst e)"
  proof (cases "i = k")
    case True then show ?thesis using i k by simp
  next
    case False
    with \<open>i \<le> k\<close> have "i < k" by simp
    from sortedEntries_nth_mono[OF this k(1)] show ?thesis using i k by simp
  qed
  have "fst e = r"
  proof -
    from pre obtain z1 where "p = r @ z1" by (auto simp: prefix_def)
    moreover from i(2,3) obtain z2 where "p = fst e @ z2" by (auto simp: prefix_def)
    moreover have "length (fst e) = length r" using le1 le2 by simp
    ultimately show ?thesis by (metis append_eq_append_conv)
  qed
  moreover have "(fst e, snd e) \<in> set obj" using e_mem by simp
  ultimately have "snd e = t" using d mem by (metis map_of_eq_Some_iff option.inject)
  then show ?thesis using e by (simp add: firstPrefixMatch_def)
qed

lemma map_of_is_longest:
  assumes "map_of obj p = Some t"
  shows "(p, t) \<in> set obj \<and> prefix p p \<and> (\<forall>e\<in>set obj. prefix (fst e) p \<longrightarrow> length (fst e) \<le> length p)"
  using assms by (auto dest: map_of_SomeD prefix_length_le)

text \<open>
  Claim C4. For every pathname, \<open>getTargetForPath\<close> returns the entry of the route table
  under exactly that key when there is one; the target of the longest key that is a prefix of
  the pathname when there is such a key (the exact key being the longest possible prefix, it
  outranks every other); and the configured default target when no key is a prefix. With the
  routes \<open>/api\<close> to \<open>A\<close> and \<open>/api/graphql\<close> to \<open>B\<close>, the path \<open>/api/graphql/x\<close>
  resolves to \<open>B\<close>.
\<close>

theorem getTargetForPath_resolution:
  assumes "distinct (map fst (routes px))"
  shows "(\<forall>t. map_of (routes px) p = Some t \<longrightarrow> getTargetForPath px p = Some t)
       \<and> (\<forall>r t. (r, t) \<in> set (routes px) \<and> prefix r p
                \<and> (\<forall>e\<in>set (routes px). prefix (fst e) p \<longrightarrow> length (fst e) \<le> length r)
              \<longrightarrow> getTargetForPath px p = Some t)
       \<and> ((\<forall>e\<in>set (routes px). \<not> prefix (fst e) p) \<longrightarrow> getTargetForPath px p = defaultTarget px)
       \<and> getTargetForPath (px\<lparr>routes := [(''/api'', ''A''), (''/api/graphql'', ''B'')]\<rparr>)
            ''/api/graphql/x'' = Some ''B''"
proof (intro conjI allI impI)
  fix t assume "map_of (routes px) p = Some t"
  with firstPrefixMatch_longest[OF assms, of p t p] map_of_is_longest[of "routes px" p t]
  show "getTargetForPath px p = Some t"
    by (simp add: getTargetForPath_def)
next
  fix r t
  assume h: "(r, t) \<in> set (routes px) \<and> prefix r p
    \<and> (\<forall>e\<in>set (routes px). prefix (fst e) p \<longrightarrow> length (fst e) \<le> length r)"
  then have fm: "firstPrefixMatch (routes px) p = Some t"
    using firstPrefixMatch_longest[OF assms, of r t p] by blast
  show "getTargetForPath px p = Some t"
  proof (cases "truthy (map_of (routes px) p)")
    case True
    then obtain t' where t': "map_of (routes px) p = Some t'"
      by (auto simp: truthy_def split: option.splits)
    with firstPrefixMatch_longest[OF assms, of p t' p] map_of_is_longest[of "routes px" p t'] fm
    show ?thesis by (simp add: getTargetForPath_def)
  next
    case False
    with fm show ?thesis by (simp add: getTargetForPath_def)
  qed
next
  assume h: "\<forall>e\<in>set (routes px). \<not> prefix (fst e) p"
  then have "map_of (routes px) p = None"
    by (metis map_of_is_longest not_None_eq fst_conv)
  with firstPrefixMatch_None[OF h] show "getTargetForPath px p = defaultTarget px"
    by (simp add: getTargetForPath_def truthy_def)
next
  show "getTargetForPath (px\<lparr>routes := [(''/api'', ''A''), (''/api/graphql'', ''B'')]\<rparr>)
            ''/api/graphql/x'' = Some ''B''"
    by (simp add: getTargetForPath_def truthy_def firstPrefixMatch_def sortedEntries_def)
qed

text \<open>
  The three cases at the routes of the example, with default target \<open>D\<close>.
\<close>

theorem getTargetForPath_resolution_witness:
  "distinct (map fst (routes px0))
   \<and> getTargetForPath px0 ''/api'' = Some ''A''
   \<and> getTargetForPath px0 ''/api/graphql/x'' = Some ''B''
   \<and> getTargetForPath px0 ''/other'' = Some ''D''"
proof -
  have d: "distinct (map fst (routes px0))" by (simp add: px0_def)
  have a: "map_of (routes px0) ''/api'' = Some ''A''" by (simp add: px0_def)
  have b: "(''/api/graphql'', ''B'') \<in> set (routes px0) \<and> prefix ''/api/graphql'' ''/api/graphql/x''
     \<and> (\<forall>e\<in>set (routes px0). prefix (fst e) ''/api/graphql/x'' \<longrightarrow> length (fst e) \<le> length ''/api/graphql'')"
    by (simp add: px0_def)
  have c: "\<forall>e\<in>set (routes px0). \<not> prefix (fst e) ''/other''" by (simp add: px0_def)
  from getTargetForPath_resolution[OF d, of "''/api''"] a
  have 1: "getTargetForPath px0 ''/api'' = Some ''A''" by blast
  from getTargetForPath_resolution[OF d, of "''/api/graphql/x''"] b
  have 2: "getTargetForPath px0 ''/api/graphql/x'' = Some ''B''" by blast
  from getTargetForPath_resolution[OF d, of "''/other''"] c
  have 3: "getTargetForPath px0 ''/other'' = Some ''D''" by (simp add: px0_def)
  from d 1 2 3 show ?thesis by blast
qed

section \<open>Outbound URL and handshake headers\<close>

lemma truthy_simps [simp]: "truthy None = False" "truthy (Some s) = (s \<noteq> [])"
  by (simp_all add: truthy_def)

lemma https_not_ws:
  "prefix ''https://'' t \<Longrightarrow> \<not> prefix ''ws://'' t \<and> \<not> prefix ''wss://'' t"
  by (auto simp: prefix_def)

text \<open>
  Claim C10. Where \<open>url.parse\<close> returns: a target that begins with \<open>ws://\<close> or
  \<open>wss://\<close> is returned as it is, followed by the query string, and the URL an attempt
  connects to does not depend on the pathname of the inbound request; a target that begins
  with \<open>https://\<close> gives \<open>wss://\<close>, any other target \<open>ws://\<close>, followed by the host and the
  path of the parsed target and then the query string.
\<close>

theorem buildTargetWebSocketUrl_cases:
  assumes "url_parse targetUrl = Some u"
  shows "(prefix ''ws://'' targetUrl \<or> prefix ''wss://'' targetUrl \<longrightarrow>
            buildTargetWebSocketUrl url_parse targetUrl q = Some (targetUrl @ q)
          \<and> targetWsUrl url_parse targetUrl rq
              = Some (targetUrl @ orElse (req_search rq) ''''))
       \<and> (prefix ''https://'' targetUrl \<longrightarrow>
            buildTargetWebSocketUrl url_parse targetUrl q
              = Some (''wss://'' @ template (url_host u) @ pathOrEmpty u @ q))
       \<and> (\<not> prefix ''ws://'' targetUrl \<and> \<not> prefix ''wss://'' targetUrl
            \<and> \<not> prefix ''https://'' targetUrl \<longrightarrow>
            buildTargetWebSocketUrl url_parse targetUrl q
              = Some (''ws://'' @ template (url_host u) @ pathOrEmpty u @ q))
       \<and> targetWsUrl url_parse targetUrl (rq\<lparr>req_pathname := pn\<rparr>)
            = targetWsUrl url_parse targetUrl rq"
  using assms https_not_ws[of targetUrl]
  by (auto simp: buildTargetWebSocketUrl_def targetWsUrl_def pathOrEmpty_def Let_def)

text \<open>
  The three kinds of target, with a parser that knows three URLs.
\<close>

theorem buildTargetWebSocketUrl_cases_witness:
  "url_parse0 ''wss://api.aion.to/ws/graphql'' \<noteq> None
   \<and> targetWsUrl url_parse0 ''wss://api.aion.to/ws/graphql'' rq0
       = Some ''wss://api.aion.to/ws/graphql?token=abc''
   \<and> buildTargetWebSocketUrl url_parse0 ''https://api.aion.to/graphql'' ''?a=1''
       = Some ''wss://api.aion.to/graphql?a=1''
   \<and> buildTargetWebSocketUrl url_parse0 ''http://localhost:4000'' ''?a=1''
       = Some ''ws://localhost:4000/?a=1''"
proof -
  have 1: "url_parse0 ''wss://api.aion.to/ws/graphql''
      = Some \<lparr>url_host = Some ''api.aion.to'', url_path = Some ''/ws/graphql'', url_pathname = Some ''/ws/graphql''\<rparr>"
    by (simp add: url_parse0_def)
  have 2: "url_parse0 ''https://api.aion.to/graphql''
      = Some \<lparr>url_host = Some ''api.aion.to'', url_path = Some ''/graphql'', url_pathname = Some ''/graphql''\<rparr>"
    by (simp add: url_parse0_def)
  have 3: "url_parse0 ''http://localhost:4000''
      = Some \<lparr>url_host = Some ''localhost:4000'', url_path = Some ''/'', url_pathname = Some ''/''\<rparr>"
    by (simp add: url_parse0_def)
  have a: "targetWsUrl url_parse0 ''wss://api.aion.to/ws/graphql'' rq0
       = Some ''wss://api.aion.to/ws/graphql?token=abc''"
    using buildTargetWebSocketUrl_cases[where url_parse = url_parse0
        and targetUrl = "''wss://api.aion.to/ws/graphql''" and q = "[]" and rq = rq0 and pn = "[]"] 1
    by (simp add: rq0_def orElse_def)
  have b: "buildTargetWebSocketUrl url_parse0 ''https://api.aion.to/graphql'' ''?a=1''
       = Some ''wss://api.aion.to/graphql?a=1''"
    using buildTargetWebSocketUrl_cases[where url_parse = url_parse0
        and targetUrl = "''https://api.aion.to/graphql''" and q = "''?a=1''" and rq = rq0 and pn = "[]"] 2
    by (simp add: pathOrEmpty_def orElse_def template_def)
  have c: "buildTargetWebSocketUrl url_parse0 ''http://localhost:4000'' ''?a=1''
       = Some ''ws://localhost:4000/?a=1''"
    using buildTargetWebSocketUrl_cases[where url_parse = url_parse0
        and targetUrl = "''http://localhost:4000''" and q = "''?a=1''" and rq = rq0 and pn = "[]"] 3
    by (simp add: pathOrEmpty_def orElse_def template_def)
  from 1 a b c show ?thesis by simp
qed

lemma fold_forwardHeader:
  "fold (forwardHeader rq) ns h n
     = (if n \<in> set ns \<and> truthy (req_headers rq n) then req_headers rq n else h n)"
  by (induction ns arbitrary: h) (auto simp: forwardHeader_def)

lemma headersToForward_mem:
  "''sec-websocket-protocol'' \<in> set headersToForward"
  "''sec-websocket-version'' \<notin> set headersToForward"
  "''connection'' \<notin> set headersToForward"
  "''upgrade'' \<notin> set headersToForward"
  by (simp_all add: headersToForward_def)

lemma getProxyHeaders_allowlisted:
  "n \<in> set headersToForward \<Longrightarrow> n \<noteq> ''sec-websocket-protocol'' \<Longrightarrow>
   getProxyHeaders px rq n = (if truthy (req_headers rq n) then req_headers rq n else None)"
  using headersToForward_mem
  by (auto simp: getProxyHeaders_def Let_def fold_forwardHeader)

lemma getProxyHeaders_protocol:
  "getProxyHeaders px rq ''sec-websocket-protocol''
     = (if truthy (req_headers rq ''sec-websocket-protocol'')
        then req_headers rq ''sec-websocket-protocol''
        else if truthy (getProtocolForPath px (req_pathname rq))
        then getProtocolForPath px (req_pathname rq) else None)"
  by (simp add: getProxyHeaders_def Let_def fold_forwardHeader headersToForward_mem)

lemma getProxyHeaders_fixed:
  "getProxyHeaders px rq ''sec-websocket-version'' = Some ''13''"
  "getProxyHeaders px rq ''connection'' = Some ''Upgrade''"
  "getProxyHeaders px rq ''upgrade'' = Some ''websocket''"
  by (simp_all add: getProxyHeaders_def Let_def)

lemma getProxyHeaders_other:
  "n \<notin> set headersToForward \<Longrightarrow>
   n \<notin> {''sec-websocket-version'', ''connection'', ''upgrade''} \<Longrightarrow>
   getProxyHeaders px rq n = None"
  using headersToForward_mem
  by (auto simp: getProxyHeaders_def Let_def fold_forwardHeader)

text \<open>
  Claim C8 as stated fails: the client offers the subprotocol \<open>graphql-ws\<close> on
  \<open>/ws/graphql\<close>, the configuration resolves \<open>graphql-transport-ws\<close> for that path, and the
  outbound header carries the resolved protocol, not the client's.
\<close>

theorem handshakeHeaders_counterexample:
  "req_headers rq0 ''sec-websocket-protocol'' = Some ''graphql-ws''
   \<and> handshakeHeaders px1 rq0 ''sec-websocket-protocol'' = Some ''graphql-transport-ws''
   \<and> handshakeHeaders px1 rq0 ''sec-websocket-protocol'' \<noteq> req_headers rq0 ''sec-websocket-protocol''"
  by (simp add: handshakeHeaders_def Let_def px1_def rq0_def getProtocolForPath_def truthy_def)

text \<open>
  Claim C8, amended. The header object handed to the outbound handshake holds: each header of
  the allowlist other than \<open>sec-websocket-protocol\<close> with its inbound value when that value
  is non-empty, and not at all otherwise; \<open>sec-websocket-protocol\<close> with the protocol
  resolved for the path whenever there is one, else with its non-empty inbound value;
  \<open>sec-websocket-version\<close>, \<open>connection\<close> and \<open>upgrade\<close> with \<open>13\<close>, \<open>Upgrade\<close> and
  \<open>websocket\<close>; and no other header.
\<close>

theorem handshakeHeaders_contents:
  "(\<forall>n\<in>set headersToForward. n \<noteq> ''sec-websocket-protocol'' \<longrightarrow>
      handshakeHeaders px rq n = (if truthy (req_headers rq n) then req_headers rq n else None))
   \<and> handshakeHeaders px rq ''sec-websocket-protocol''
       = (if truthy (getProtocolForPath px (req_pathname rq))
          then getProtocolForPath px (req_pathname rq)
          else if truthy (req_headers rq ''sec-websocket-protocol'')
          then req_headers rq ''sec-websocket-protocol'' else None)
   \<and> handshakeHeaders px rq ''sec-websocket-version'' = Some ''13''
   \<and> handshakeHeaders px rq ''connection'' = Some ''Upgrade''
   \<and> handshakeHeaders px rq ''upgrade'' = Some ''websocket''
   \<and> (\<forall>n. n \<notin> set headersToForward
           \<and> n \<notin> {''sec-websocket-version'', ''connection'', ''upgrade''} \<longrightarrow>
         handshakeHeaders px rq n = None)"
proof (intro conjI ballI allI impI)
  fix n assume "n \<in> set headersToForward" "n \<noteq> ''sec-websocket-protocol''"
  then show "handshakeHeaders px rq n = (if truthy (req_headers rq n) then req_headers rq n else None)"
    using getProxyHeaders_allowlisted[of n px rq] by (simp add: handshakeHeaders_def Let_def)
next
  show "handshakeHeaders px rq ''sec-websocket-protocol''
       = (if truthy (getProtocolForPath px (req_pathname rq))
          then getProtocolForPath px (req_pathname rq)
          else if truthy (req_headers rq ''sec-websocket-protocol'')
          then req_headers rq ''sec-websocket-protocol'' else None)"
    by (simp add: handshakeHeaders_def Let_def getProxyHeaders_protocol)
next
  fix n assume "n \<notin> set headersToForward
           \<and> n \<notin> {''sec-websocket-version'', ''connection'', ''upgrade''}"
  then show "handshakeHeaders px rq n = None"
    using getProxyHeaders_other[of n px rq] headersToForward_mem
    by (auto simp: handshakeHeaders_def Let_def)
qed (simp_all add: handshakeHeaders_def Let_def getProxyHeaders_fixed)

text \<open>
  An allowlisted header is copied and a header outside the allowlist is dropped.
\<close>

theorem handshakeHeaders_contents_witness:
  "''origin'' \<in> set headersToForward
   \<and> handshakeHeaders px1 (rq0\<lparr>req_headers := [''origin'' \<mapsto> ''http://localhost:3000'', ''x-custom'' \<mapsto> ''1'']\<rparr>) ''origin''
       = Some ''http://localhost:3000''
   \<and> handshakeHeaders px1 (rq0\<lparr>req_headers := [''origin'' \<mapsto> ''http://localhost:3000'', ''x-custom'' \<mapsto> ''1'']\<rparr>) ''x-custom''
       = None"
  using handshakeHeaders_contents[of px1 "rq0\<lparr>req_headers := [''origin'' \<mapsto> ''http://localhost:3000'', ''x-custom'' \<mapsto> ''1'']\<rparr>"]
  by (simp add: headersToForward_def truthy_def)

section \<open>The handshake upgrades the client once\<close>

lemma setAttempt_simps [simp]:
  "attempts (setAttempt i a s) = (attempts s)[i := a]"
  "retries (setAttempt i a s) = retries s"
  "pendingRetries (setAttempt i a s) = pendingRetries s"
  "scheduled (setAttempt i a s) = scheduled s"
  "socketWrites (setAttempt i a s) = socketWrites s"
  "socketDestroyed (setAttempt i a s) = socketDestroyed s"
  "upgrades (setAttempt i a s) = upgrades s"
  "relaySessions (setAttempt i a s) = relaySessions s"
  by (simp_all add: setAttempt_def)

lemma scheduleRetry_simps [simp]:
  "attempts (scheduleRetry px s) = attempts s"
  "retries (scheduleRetry px s) = retries s + 1"
  "pendingRetries (scheduleRetry px s) = pendingRetries s + 1"
  "scheduled (scheduleRetry px s) = scheduled s @ [retryDelay px * (retries s + 1)]"
  "socketWrites (scheduleRetry px s) = socketWrites s"
  "socketDestroyed (scheduleRetry px s) = socketDestroyed s"
  "upgrades (scheduleRetry px s) = upgrades s"
  "relaySessions (scheduleRetry px s) = relaySessions s"
  by (simp_all add: scheduleRetry_def)

lemma respond_simps [simp]:
  "attempts (respond l s) = attempts s"
  "retries (respond l s) = retries s"
  "pendingRetries (respond l s) = pendingRetries s"
  "scheduled (respond l s) = scheduled s"
  "socketWrites (respond l s) = socketWrites s @ [l]"
  "socketDestroyed (respond l s) = True"
  "upgrades (respond l s) = upgrades s"
  "relaySessions (respond l s) = relaySessions s"
  by (simp_all add: respond_def)

lemma tok_setAttempt:
  "i < length (attempts s) \<Longrightarrow> tok (setAttempt i a s) j = (if j = i then live a else tok s j)"
  by (auto simp: tok_def nth_list_update)

lemma tok_cong:
  "attempts s' = attempts s \<Longrightarrow> tok s' = tok s"
  by (auto simp: tok_def fun_eq_iff)

lemma handshakeInv_cong:
  "attempts s' = attempts s \<Longrightarrow> pendingRetries s' = pendingRetries s \<Longrightarrow>
   upgrades s' = upgrades s \<Longrightarrow> relaySessions s' = relaySessions s \<Longrightarrow>
   handshakeInv s' = handshakeInv s"
  using tok_cong[of s' s] by (simp add: handshakeInv_def)

lemma invD:
  assumes "handshakeInv s"
  shows inv_pending: "pendingRetries s \<le> 1"
    and inv_unique: "tok s i \<Longrightarrow> tok s j \<Longrightarrow> i = j"
    and inv_pending_tok: "pendingRetries s = 1 \<Longrightarrow> \<not> tok s i"
    and inv_upgrades: "upgrades s \<le> 1"
    and inv_up_pending: "upgrades s = 1 \<Longrightarrow> pendingRetries s = 0"
    and inv_up_tok: "upgrades s = 1 \<Longrightarrow> tok s i \<Longrightarrow> isUpgraded (attempts s ! i)"
    and inv_upgraded: "a \<in> set (attempts s) \<Longrightarrow> isUpgraded a \<Longrightarrow> upgrades s = 1"
    and inv_timer: "a \<in> set (attempts s) \<Longrightarrow> okTimer a"
    and inv_relay: "relaySessions s = upgrades s"
  using assms unfolding handshakeInv_def by blast+

lemma invI:
  assumes "pendingRetries s \<le> 1"
    and "\<And>i j. tok s i \<Longrightarrow> tok s j \<Longrightarrow> i = j"
    and "\<And>i. pendingRetries s = 1 \<Longrightarrow> \<not> tok s i"
    and "upgrades s \<le> 1"
    and "upgrades s = 1 \<Longrightarrow> pendingRetries s = 0"
    and "\<And>i. upgrades s = 1 \<Longrightarrow> tok s i \<Longrightarrow> isUpgraded (attempts s ! i)"
    and "\<And>a. a \<in> set (attempts s) \<Longrightarrow> isUpgraded a \<Longrightarrow> upgrades s = 1"
    and "\<And>a. a \<in> set (attempts s) \<Longrightarrow> okTimer a"
    and "relaySessions s = upgrades s"
  shows "handshakeInv s"
  unfolding handshakeInv_def using assms by blast

lemma tok_free:
  assumes "handshakeInv s" "tok s i" "\<not> isUpgraded (attempts s ! i)"
  shows "pendingRetries s = 0" "upgrades s = 0" "\<And>j. tok s j \<Longrightarrow> j = i"
proof -
  from inv_pending[OF assms(1)] inv_pending_tok[OF assms(1), of i] assms(2)
  show "pendingRetries s = 0" by linarith
  from inv_upgrades[OF assms(1)] inv_up_tok[OF assms(1), of i] assms(2,3)
  show "upgrades s = 0" by linarith
  show "\<And>j. tok s j \<Longrightarrow> j = i" using inv_unique[OF assms(1) _ assms(2)] by blast
qed

lemma mem_update: "b \<in> set (xs[i := a]) \<Longrightarrow> b = a \<or> b \<in> set xs"
  using set_update_subset_insert[of xs i a] by auto

lemma inv_shrink:
  assumes inv: "handshakeInv s" and i: "i < length (attempts s)"
    and l: "live a \<Longrightarrow> live (attempts s ! i)"
    and u: "isUpgraded a = isUpgraded (attempts s ! i)"
    and t: "okTimer a"
  shows "handshakeInv (setAttempt i a s)"
proof (rule invI)
  have tk: "tok (setAttempt i a s) j \<Longrightarrow> tok s j" for j
  proof (cases "j = i")
    case True
    assume "tok (setAttempt i a s) j"
    with True i have "live a" by (simp add: tok_def)
    then have "live (attempts s ! i)" by (rule l)
    with True i show ?thesis by (simp add: tok_def)
  next
    case False
    assume "tok (setAttempt i a s) j"
    with False show ?thesis by (simp add: tok_def)
  qed
  have up: "j < length (attempts s) \<Longrightarrow>
      isUpgraded ((attempts s)[i := a] ! j) = isUpgraded (attempts s ! j)" for j
    using u by (cases "j = i") simp_all
  show "pendingRetries (setAttempt i a s) \<le> 1" using inv_pending[OF inv] by simp
  show "\<And>i' j. tok (setAttempt i a s) i' \<Longrightarrow> tok (setAttempt i a s) j \<Longrightarrow> i' = j"
    using tk inv_unique[OF inv] by blast
  show "\<And>i'. pendingRetries (setAttempt i a s) = 1 \<Longrightarrow> \<not> tok (setAttempt i a s) i'"
    using tk inv_pending_tok[OF inv] by auto
  show "upgrades (setAttempt i a s) \<le> 1" using inv_upgrades[OF inv] by simp
  show "upgrades (setAttempt i a s) = 1 \<Longrightarrow> pendingRetries (setAttempt i a s) = 0"
    using inv_up_pending[OF inv] by simp
  show "\<And>i'. upgrades (setAttempt i a s) = 1 \<Longrightarrow> tok (setAttempt i a s) i' \<Longrightarrow>
      isUpgraded (attempts (setAttempt i a s) ! i')"
  proof -
    fix i' assume a: "upgrades (setAttempt i a s) = 1" "tok (setAttempt i a s) i'"
    from a(2) have "tok s i'" by (rule tk)
    with a(1) inv_up_tok[OF inv, of i'] have "isUpgraded (attempts s ! i')" by simp
    moreover from \<open>tok s i'\<close> have "i' < length (attempts s)" by (simp add: tok_def)
    ultimately show "isUpgraded (attempts (setAttempt i a s) ! i')" using up by simp
  qed
  show "\<And>b. b \<in> set (attempts (setAttempt i a s)) \<Longrightarrow> isUpgraded b \<Longrightarrow>
      upgrades (setAttempt i a s) = 1"
  proof -
    fix b assume b: "b \<in> set (attempts (setAttempt i a s))" "isUpgraded b"
    then have "b = a \<or> b \<in> set (attempts s)" using mem_update by simp
    moreover have "attempts s ! i \<in> set (attempts s)" using i by simp
    ultimately show "upgrades (setAttempt i a s) = 1"
      using b(2) u inv_upgraded[OF inv] by auto
  qed
  show "\<And>b. b \<in> set (attempts (setAttempt i a s)) \<Longrightarrow> okTimer b"
    using mem_update t inv_timer[OF inv] by fastforce
  show "relaySessions (setAttempt i a s) = upgrades (setAttempt i a s)"
    using inv_relay[OF inv] by simp
qed

lemma inv_shrink_live:
  "handshakeInv s \<Longrightarrow> i < length (attempts s) \<Longrightarrow> live (attempts s ! i) \<Longrightarrow>
   isUpgraded a = isUpgraded (attempts s ! i) \<Longrightarrow> okTimer a \<Longrightarrow>
   handshakeInv (setAttempt i a s)"
  by (rule inv_shrink)

lemma inv_shrink_dead:
  "handshakeInv s \<Longrightarrow> i < length (attempts s) \<Longrightarrow> \<not> live a \<Longrightarrow>
   isUpgraded a = isUpgraded (attempts s ! i) \<Longrightarrow> okTimer a \<Longrightarrow>
   handshakeInv (setAttempt i a s)"
  by (rule inv_shrink) simp_all

lemma inv_retry:
  assumes inv: "handshakeInv s" and i: "i < length (attempts s)"
    and tk: "live (attempts s ! i)" and nu: "\<not> isUpgraded (attempts s ! i)"
    and l: "\<not> live a" and u: "\<not> isUpgraded a" and t: "okTimer a"
  shows "handshakeInv (scheduleRetry px (setAttempt i a s))"
proof (rule invI)
  let ?s' = "scheduleRetry px (setAttempt i a s)"
  have ti: "tok s i" using i tk by (simp add: tok_def)
  note f = tok_free[OF inv ti nu]
  have none: "\<not> tok ?s' j" for j
  proof (cases "j = i")
    case True then show ?thesis using i l by (simp add: tok_def)
  next
    case False
    then have "tok ?s' j = tok s j" by (simp add: tok_def)
    with f(3)[of j] False show ?thesis by blast
  qed
  have nou: "b \<in> set (attempts s) \<Longrightarrow> \<not> isUpgraded b" for b
    using inv_upgraded[OF inv, of b] f(2) by auto
  show "pendingRetries ?s' \<le> 1" using f(1) by simp
  show "\<And>i j. tok ?s' i \<Longrightarrow> tok ?s' j \<Longrightarrow> i = j" using none by blast
  show "\<And>i. pendingRetries ?s' = 1 \<Longrightarrow> \<not> tok ?s' i" using none by blast
  show "upgrades ?s' \<le> 1" using f(2) by simp
  show "upgrades ?s' = 1 \<Longrightarrow> pendingRetries ?s' = 0" using f(2) by simp
  show "\<And>i. upgrades ?s' = 1 \<Longrightarrow> tok ?s' i \<Longrightarrow> isUpgraded (attempts ?s' ! i)"
    using none by blast
  show "\<And>b. b \<in> set (attempts ?s') \<Longrightarrow> isUpgraded b \<Longrightarrow> upgrades ?s' = 1"
    using mem_update[of _ "attempts s" i a] nou u by auto
  show "\<And>b. b \<in> set (attempts ?s') \<Longrightarrow> okTimer b"
    using mem_update[of _ "attempts s" i a] t inv_timer[OF inv] by auto
  show "relaySessions ?s' = upgrades ?s'" using inv_relay[OF inv] by simp
qed

lemma inv_upgrade:
  assumes inv: "handshakeInv s" and i: "i < length (attempts s)"
    and tk: "live (attempts s ! i)" and nu: "\<not> isUpgraded (attempts s ! i)"
    and u: "isUpgraded a" and t: "\<not> connectionTimeout a"
  shows "handshakeInv ((setAttempt i a s)\<lparr>upgrades := upgrades s + 1,
                                           relaySessions := relaySessions s + 1\<rparr>)"
proof (rule invI)
  let ?s' = "(setAttempt i a s)\<lparr>upgrades := upgrades s + 1, relaySessions := relaySessions s + 1\<rparr>"
  have ti: "tok s i" using i tk by (simp add: tok_def)
  note f = tok_free[OF inv ti nu]
  have only: "tok ?s' j \<Longrightarrow> j = i" for j
  proof (rule ccontr)
    assume a: "tok ?s' j" "j \<noteq> i"
    then have "tok s j" by (simp add: tok_def)
    with f(3)[of j] a(2) show False by blast
  qed
  show "pendingRetries ?s' \<le> 1" using f(1) by simp
  show "\<And>i j. tok ?s' i \<Longrightarrow> tok ?s' j \<Longrightarrow> i = j" using only by blast
  show "\<And>i. pendingRetries ?s' = 1 \<Longrightarrow> \<not> tok ?s' i" using f(1) by simp
  show "upgrades ?s' \<le> 1" using f(2) by simp
  show "upgrades ?s' = 1 \<Longrightarrow> pendingRetries ?s' = 0" using f(1) by simp
  show "\<And>i'. upgrades ?s' = 1 \<Longrightarrow> tok ?s' i' \<Longrightarrow> isUpgraded (attempts ?s' ! i')"
  proof -
    fix i' assume "tok ?s' i'"
    then have "i' = i" by (rule only)
    then show "isUpgraded (attempts ?s' ! i')" using i u by simp
  qed
  show "\<And>b. b \<in> set (attempts ?s') \<Longrightarrow> isUpgraded b \<Longrightarrow> upgrades ?s' = 1"
    using f(2) by simp
  show "\<And>b. b \<in> set (attempts ?s') \<Longrightarrow> okTimer b"
    using mem_update[of _ "attempts s" i a] t inv_timer[OF inv] by (auto simp: okTimer_def)
  show "relaySessions ?s' = upgrades ?s'" using inv_relay[OF inv] by simp
qed

lemma inv_respond [simp]: "handshakeInv (respond l s) = handshakeInv s"
  by (rule handshakeInv_cong) simp_all

lemma inv_destroyed [simp]: "handshakeInv (s\<lparr>socketDestroyed := b\<rparr>) = handshakeInv s"
  by (rule handshakeInv_cong) simp_all

lemma emitting_simps [simp]:
  "emitting CONNECTING" "emitting OPEN" "\<not> emitting CLOSING" "\<not> emitting CLOSED"
  by (simp_all add: emitting_def)

lemma okTimer_simps [simp]:
  "okTimer (a\<lparr>connectionTimeout := False\<rparr>)"
  "okTimer (a\<lparr>targetWs := st\<rparr>) = okTimer a"
  "okTimer (a\<lparr>clientWs := c\<rparr>) = okTimer a"
  "okTimer (closeTarget a) = okTimer a"
  "okTimer (closeClient code reason a) = okTimer a"
  by (simp_all add: okTimer_def closeTarget_def closeClient_def)

lemma not_live_closed [simp]:
  "connectionClosed a \<Longrightarrow> \<not> live a"
  "\<not> live (a\<lparr>connectionClosed := True\<rparr>)"
  "\<not> live (closeTarget (a\<lparr>connectionClosed := True\<rparr>))"
  "\<not> live (closeClient code reason (a\<lparr>connectionClosed := True\<rparr>))"
  by (simp_all add: live_def closeTarget_def closeClient_def)

lemma isUpgraded_simps [simp]:
  "isUpgraded (closeTarget a) = isUpgraded a"
  "isUpgraded (closeClient code reason a) = isUpgraded a"
  "connectionClosed (closeTarget a) = connectionClosed a"
  "connectionTimeout (closeTarget a) = connectionTimeout a"
  by (simp_all add: closeTarget_def closeClient_def)

lemma inv_onTargetOpen:
  assumes inv: "handshakeInv s" and i: "i < length (attempts s)"
    and en: "emitting (targetWs (attempts s ! i))"
  shows "handshakeInv (onTargetOpen i hu s)"
proof -
  let ?old = "attempts s ! i"
  let ?a = "?old\<lparr>targetWs := OPEN\<rparr>"
  have ok0: "okTimer ?old" using inv_timer[OF inv] i by simp
  show ?thesis
  proof (cases "connectionClosed ?old")
    case True
    then have "handshakeInv (setAttempt i ?a s)"
      using inv_shrink_dead[OF inv i, of ?a] ok0 True by (simp add: okTimer_def live_def)
    with True show ?thesis by (simp add: onTargetOpen_def Let_def)
  next
    case nc: False
    then have lv: "live ?old" using en by (simp add: live_def)
    have plain: "handshakeInv (setAttempt i (?a\<lparr>connectionTimeout := False\<rparr>) s)"
      using inv_shrink_live[OF inv i lv, of "?a\<lparr>connectionTimeout := False\<rparr>"]
      by (simp add: okTimer_def live_def)
    have thrown: "handshakeInv (setAttempt i
        (closeTarget (?a\<lparr>connectionTimeout := False, connectionClosed := True\<rparr>)) s)"
      using inv_shrink_dead[OF inv i,
          of "closeTarget (?a\<lparr>connectionTimeout := False, connectionClosed := True\<rparr>)"]
      by (simp add: okTimer_def live_def closeTarget_def closeClient_def)
    have up: "\<not> isUpgraded ?old \<Longrightarrow> handshakeInv
        ((setAttempt i
            (?a\<lparr>connectionTimeout := False, clientWs := Some OPEN, isUpgraded := True\<rparr>) s)
         \<lparr>upgrades := upgrades s + 1, relaySessions := relaySessions s + 1\<rparr>)"
      using inv_upgrade[OF inv i lv,
          of "?a\<lparr>connectionTimeout := False, clientWs := Some OPEN, isUpgraded := True\<rparr>"]
      by (simp add: okTimer_def live_def closeTarget_def closeClient_def)
    show ?thesis
    proof (cases "isUpgraded ?old")
      case True
      with nc plain show ?thesis by (simp add: onTargetOpen_def Let_def)
    next
      case nu: False
      with nc plain thrown up[OF nu] show ?thesis
        by (cases hu) (simp_all add: onTargetOpen_def Let_def established_def)
    qed
  qed
qed

lemma inv_onTargetError:
  assumes inv: "handshakeInv s" and i: "i < length (attempts s)"
    and en: "emitting (targetWs (attempts s ! i))"
  shows "handshakeInv (onTargetError px i e s)"
proof -
  let ?old = "attempts s ! i"
  let ?a = "?old\<lparr>targetWs := CLOSING\<rparr>"
  have ok0: "okTimer ?old" using inv_timer[OF inv] i by simp
  show ?thesis
  proof (cases "connectionClosed ?old")
    case True
    then have "handshakeInv (setAttempt i ?a s)"
      using inv_shrink_dead[OF inv i, of ?a] ok0 True by (simp add: okTimer_def live_def)
    with True show ?thesis by (simp add: onTargetError_def Let_def)
  next
    case nc: False
    then have lv: "live ?old" using en by (simp add: live_def)
    have closed: "handshakeInv (setAttempt i (?a\<lparr>connectionTimeout := False, connectionClosed := True\<rparr>) s)"
      using inv_shrink_dead[OF inv i, of "?a\<lparr>connectionTimeout := False, connectionClosed := True\<rparr>"]
      by (simp add: okTimer_def live_def closeTarget_def closeClient_def)
    have closedc: "handshakeInv (setAttempt i (closeClient code reason
        (?a\<lparr>connectionTimeout := False, connectionClosed := True\<rparr>)) s)" for code reason
      using inv_shrink_dead[OF inv i, of "closeClient code reason
        (?a\<lparr>connectionTimeout := False, connectionClosed := True\<rparr>)"]
      by (simp add: okTimer_def live_def closeTarget_def closeClient_def)
    have retry: "\<not> isUpgraded ?old \<Longrightarrow>
        handshakeInv (scheduleRetry px (setAttempt i (?a\<lparr>connectionTimeout := False\<rparr>) s))"
      using inv_retry[OF inv i lv, of "?a\<lparr>connectionTimeout := False\<rparr>" px]
      by (simp add: live_def okTimer_def)
    show ?thesis
      using nc closed closedc retry by (simp add: onTargetError_def Let_def)
  qed
qed

lemma inv_onConnectionTimeout:
  assumes inv: "handshakeInv s" and i: "i < length (attempts s)"
  shows "handshakeInv (onConnectionTimeout px i s)"
proof -
  let ?a = "attempts s ! i"
  have ok0: "okTimer ?a" using inv_timer[OF inv] i by simp
  show ?thesis
  proof (cases "connectionTimeout ?a")
    case False
    then show ?thesis using inv by (simp add: onConnectionTimeout_def Let_def)
  next
    case True
    with ok0 have nu: "\<not> isUpgraded ?a" and nc: "\<not> connectionClosed ?a"
      by (simp_all add: okTimer_def)
    from True nc have lv: "live ?a" by (simp add: live_def)
    have retry: "handshakeInv (scheduleRetry px
        (setAttempt i (?a\<lparr>connectionTimeout := False, connectionClosed := True\<rparr>) s))"
      using inv_retry[OF inv i lv nu, of "?a\<lparr>connectionTimeout := False, connectionClosed := True\<rparr>" px] nu
      by (simp add: okTimer_def live_def closeTarget_def closeClient_def)
    have final: "handshakeInv (setAttempt i
        (closeTarget (?a\<lparr>connectionTimeout := False, connectionClosed := True\<rparr>)) s)"
      using inv_shrink_dead[OF inv i,
          of "closeTarget (?a\<lparr>connectionTimeout := False, connectionClosed := True\<rparr>)"]
      by (simp add: okTimer_def live_def closeTarget_def closeClient_def)
    show ?thesis using True nu nc retry final by (simp add: onConnectionTimeout_def Let_def)
  qed
qed

lemma not_tok_pending:
  assumes "\<And>i. \<not> tok s i" "attempts s' = attempts s"
  shows "\<not> tok s' i"
  using assms(1)[of i] assms(2) by (simp add: tok_def)

lemma inv_retryTimer:
  assumes inv: "handshakeInv s" and p: "0 < pendingRetries s"
  shows "handshakeInv (attemptConnection px ok (s\<lparr>pendingRetries := pendingRetries s - 1\<rparr>))"
proof -
  have p1: "pendingRetries s = 1" using inv_pending[OF inv] p by simp
  have none: "\<not> tok s i" for i using inv_pending_tok[OF inv p1] .
  have u0: "upgrades s = 0" using inv_upgrades[OF inv] inv_up_pending[OF inv] p1 by linarith
  have nou: "b \<in> set (attempts s) \<Longrightarrow> \<not> isUpgraded b" for b
    using inv_upgraded[OF inv, of b] u0 by auto
  let ?s1 = "s\<lparr>pendingRetries := pendingRetries s - 1\<rparr>"
  show ?thesis
  proof (cases ok)
    case True
    let ?s' = "?s1\<lparr>attempts := attempts s @ [newAttempt]\<rparr>"
    have tk: "tok ?s' j \<Longrightarrow> j = length (attempts s)" for j
    proof (rule ccontr)
      assume a: "tok ?s' j" "j \<noteq> length (attempts s)"
      then have "tok s j" by (auto simp: tok_def nth_append split: if_splits)
      with none show False by blast
    qed
    have "handshakeInv ?s'"
    proof (rule invI)
      show "pendingRetries ?s' \<le> 1" using p1 by simp
      show "\<And>i j. tok ?s' i \<Longrightarrow> tok ?s' j \<Longrightarrow> i = j" using tk by blast
      show "\<And>i. pendingRetries ?s' = 1 \<Longrightarrow> \<not> tok ?s' i" using p1 by simp
      show "upgrades ?s' \<le> 1" using u0 by simp
      show "upgrades ?s' = 1 \<Longrightarrow> pendingRetries ?s' = 0" using u0 by simp
      show "\<And>i. upgrades ?s' = 1 \<Longrightarrow> tok ?s' i \<Longrightarrow> isUpgraded (attempts ?s' ! i)"
        using u0 by simp
      show "\<And>b. b \<in> set (attempts ?s') \<Longrightarrow> isUpgraded b \<Longrightarrow> upgrades ?s' = 1"
        using nou by (auto simp: newAttempt_def)
      show "\<And>b. b \<in> set (attempts ?s') \<Longrightarrow> okTimer b"
        using inv_timer[OF inv] by (auto simp: newAttempt_def okTimer_def)
      show "relaySessions ?s' = upgrades ?s'" using inv_relay[OF inv] by simp
    qed
    with True show ?thesis by (simp add: attemptConnection_def)
  next
    case False
    have a: "handshakeInv ?s1"
    proof (rule invI)
      show "\<And>i j. tok ?s1 i \<Longrightarrow> tok ?s1 j \<Longrightarrow> i = j"
        using not_tok_pending[of s ?s1, OF none] by simp
      show "\<And>i. upgrades ?s1 = 1 \<Longrightarrow> tok ?s1 i \<Longrightarrow> isUpgraded (attempts ?s1 ! i)"
        using u0 by simp
      show "\<And>b. b \<in> set (attempts ?s1) \<Longrightarrow> isUpgraded b \<Longrightarrow> upgrades ?s1 = 1"
        using nou by auto
      show "\<And>b. b \<in> set (attempts ?s1) \<Longrightarrow> okTimer b" using inv_timer[OF inv] by simp
      show "relaySessions ?s1 = upgrades ?s1" using inv_relay[OF inv] by simp
    qed (use p1 u0 in simp_all)
    have b: "handshakeInv (scheduleRetry px ?s1)"
    proof (rule invI)
      show "\<And>i j. tok (scheduleRetry px ?s1) i \<Longrightarrow> tok (scheduleRetry px ?s1) j \<Longrightarrow> i = j"
        using not_tok_pending[of s "scheduleRetry px ?s1", OF none] by simp
      show "\<And>i. pendingRetries (scheduleRetry px ?s1) = 1 \<Longrightarrow> \<not> tok (scheduleRetry px ?s1) i"
        using not_tok_pending[of s "scheduleRetry px ?s1", OF none] by simp
      show "\<And>i. upgrades (scheduleRetry px ?s1) = 1 \<Longrightarrow> tok (scheduleRetry px ?s1) i \<Longrightarrow>
          isUpgraded (attempts (scheduleRetry px ?s1) ! i)"
        using u0 by simp
      show "\<And>b. b \<in> set (attempts (scheduleRetry px ?s1)) \<Longrightarrow> isUpgraded b \<Longrightarrow>
          upgrades (scheduleRetry px ?s1) = 1"
        using nou by auto
      show "\<And>b. b \<in> set (attempts (scheduleRetry px ?s1)) \<Longrightarrow> okTimer b"
        using inv_timer[OF inv] by simp
      show "relaySessions (scheduleRetry px ?s1) = upgrades (scheduleRetry px ?s1)"
        using inv_relay[OF inv] by simp
    qed (use p1 u0 in simp_all)
    from False a b show ?thesis by (simp add: attemptConnection_def)
  qed
qed

lemma onSocketError_closed [simp]:
  "connectionClosed (onSocketError a)"
  "isUpgraded (onSocketError a) = isUpgraded a"
  "okTimer a \<Longrightarrow> okTimer (onSocketError a)"
  by (auto simp: onSocketError_def okTimer_def)

lemma inv_socketError:
  assumes inv: "handshakeInv s"
  shows "handshakeInv (s\<lparr>attempts := map onSocketError (attempts s)\<rparr>)"
proof (rule invI)
  let ?s' = "s\<lparr>attempts := map onSocketError (attempts s)\<rparr>"
  have none: "\<not> tok ?s' i" for i by (simp add: tok_def)
  show "\<And>i j. tok ?s' i \<Longrightarrow> tok ?s' j \<Longrightarrow> i = j" using none by blast
  show "\<And>i. pendingRetries ?s' = 1 \<Longrightarrow> \<not> tok ?s' i" using none by blast
  show "\<And>i. upgrades ?s' = 1 \<Longrightarrow> tok ?s' i \<Longrightarrow> isUpgraded (attempts ?s' ! i)"
    using none by blast
  show "\<And>b. b \<in> set (attempts ?s') \<Longrightarrow> isUpgraded b \<Longrightarrow> upgrades ?s' = 1"
    using inv_upgraded[OF inv] by auto
  show "\<And>b. b \<in> set (attempts ?s') \<Longrightarrow> okTimer b"
    using inv_timer[OF inv] by auto
qed (use inv_pending[OF inv] inv_upgrades[OF inv] inv_up_pending[OF inv] inv_relay[OF inv]
     in simp_all)

lemma emitting_rank: "rank st' \<le> rank st \<Longrightarrow> emitting st \<Longrightarrow> emitting st'"
  by (cases st; cases st'; simp add: emitting_def)

lemma inv_step:
  assumes inv: "handshakeInv s" and en: "enabled s ev"
  shows "handshakeInv (step px ev s)"
proof (cases ev)
  case (TargetOpen i hu)
  with inv en show ?thesis by (simp add: inv_onTargetOpen)
next
  case (TargetError i e)
  with inv en show ?thesis by (simp add: inv_onTargetError)
next
  case (ConnectionTimeout i)
  with inv show ?thesis by (simp add: inv_onConnectionTimeout)
next
  case (RetryTimer ok)
  with inv inv_retryTimer[OF inv, of px ok] show ?thesis by auto
next
  case SocketError
  with inv show ?thesis by (simp add: inv_socketError)
next
  case (TargetReadyState i st)
  with en have i: "i < length (attempts s)"
    and r: "rank (targetWs (attempts s ! i)) \<le> rank st" by simp_all
  have "handshakeInv (setAttempt i ((attempts s ! i)\<lparr>targetWs := st\<rparr>) s)"
    using inv_shrink[OF inv i, of "(attempts s ! i)\<lparr>targetWs := st\<rparr>"]
      emitting_rank[OF r] inv_timer[OF inv, of "attempts s ! i"] i
    by (auto simp: live_def)
  with TargetReadyState i show ?thesis by simp
next
  case (ClientReadyState i st)
  show ?thesis
  proof (cases "i < length (attempts s) \<and> clientWs (attempts s ! i) \<noteq> None")
    case True
    then have i: "i < length (attempts s)" by simp
    have "handshakeInv (setAttempt i ((attempts s ! i)\<lparr>clientWs := Some st\<rparr>) s)"
      using inv_shrink[OF inv i, of "(attempts s ! i)\<lparr>clientWs := Some st\<rparr>"]
        inv_timer[OF inv, of "attempts s ! i"] i
      by (auto simp: live_def)
    with ClientReadyState True show ?thesis by simp
  next
    case False
    with ClientReadyState inv show ?thesis by auto
  qed
qed

lemma inv_run:
  "handshakeInv s \<Longrightarrow> admissible px s evs \<Longrightarrow> handshakeInv (run px evs s)"
  by (induction evs arbitrary: s) (simp_all add: inv_step)

lemma inv_init: "handshakeInv (handleWebSocketUpgrade px ok)"
proof -
  have a: "handshakeInv (initSession\<lparr>pendingRetries := 1\<rparr>)"
    by (rule invI) (simp_all add: initSession_def tok_def)
  from inv_retryTimer[OF a, of px ok] show ?thesis
    by (simp add: handleWebSocketUpgrade_def initSession_def)
qed

lemma upgrades_step: "upgrades s \<le> upgrades (step px ev s)"
  by (cases ev)
     (auto simp: onTargetOpen_def onTargetError_def onConnectionTimeout_def
                 attemptConnection_def Let_def split: handleUpgrade.splits)

lemma upgrades_run: "upgrades s \<le> upgrades (run px evs s)"
proof (induction evs arbitrary: s)
  case Nil
  show ?case by simp
next
  case (Cons ev evs)
  from upgrades_step[of s px ev] Cons[of "step px ev s"] show ?case by simp
qed

lemma run_append: "run px (xs @ ys) s = run px ys (run px xs s)"
  by (induction xs arbitrary: s) simp_all

lemma admissible_append:
  "admissible px s (xs @ ys) = (admissible px s xs \<and> admissible px (run px xs s) ys)"
  by (induction xs arbitrary: s) auto

lemma onTargetOpen_upgrades:
  assumes "handshakeInv s" "i < length (attempts s)" "\<not> connectionClosed (attempts s ! i)"
  shows "1 \<le> upgrades (onTargetOpen i Callback s)"
proof (cases "isUpgraded (attempts s ! i)")
  case True
  with inv_upgraded[OF assms(1), of "attempts s ! i"] assms(2,3)
  show ?thesis by (simp add: onTargetOpen_def Let_def)
next
  case False
  with assms(3) show ?thesis by (simp add: onTargetOpen_def Let_def)
qed

lemma px2_simps [simp]:
  "maxRetries px2 = 2" "retryDelay px2 = 1000"
  by (simp_all add: px2_def WebSocketProxy_def numberOr_def)

text \<open>
  Claim C3. In every session whose events the sockets and timers can produce, repeated
  \<open>'open'\<close> events included, the \<open>handleUpgrade\<close> callback runs at most once and a relay is
  installed exactly as often; and it runs exactly once as soon as an \<open>'open'\<close> event with a
  succeeding \<open>handleUpgrade\<close> reaches an attempt that is not flagged closed.
\<close>

theorem upgrade_exactly_once:
  assumes "admissible px (handleWebSocketUpgrade px ok) evs"
  shows "upgrades (run px evs (handleWebSocketUpgrade px ok)) \<le> 1
       \<and> relaySessions (run px evs (handleWebSocketUpgrade px ok))
           = upgrades (run px evs (handleWebSocketUpgrade px ok))
       \<and> (\<forall>pre i post.
             evs = pre @ TargetOpen i Callback # post
             \<and> \<not> connectionClosed (attempts (run px pre (handleWebSocketUpgrade px ok)) ! i)
             \<longrightarrow> upgrades (run px evs (handleWebSocketUpgrade px ok)) = 1)"
proof (intro conjI allI impI)
  let ?init = "handleWebSocketUpgrade px ok"
  have inv: "handshakeInv (run px evs ?init)" by (rule inv_run[OF inv_init assms])
  show le: "upgrades (run px evs ?init) \<le> 1" by (rule inv_upgrades[OF inv])
  show "relaySessions (run px evs ?init) = upgrades (run px evs ?init)" by (rule inv_relay[OF inv])
  fix pre i post
  assume h: "evs = pre @ TargetOpen i Callback # post
             \<and> \<not> connectionClosed (attempts (run px pre ?init) ! i)"
  let ?s1 = "run px pre ?init"
  from assms h have adm: "admissible px ?init pre" and en: "enabled ?s1 (TargetOpen i Callback)"
    by (simp_all add: admissible_append)
  have inv1: "handshakeInv ?s1" by (rule inv_run[OF inv_init adm])
  from en have i: "i < length (attempts ?s1)" by simp
  have "1 \<le> upgrades (step px (TargetOpen i Callback) ?s1)"
    using onTargetOpen_upgrades[OF inv1 i] h i by simp
  also have "\<dots> \<le> upgrades (run px post (step px (TargetOpen i Callback) ?s1))"
    by (rule upgrades_run)
  also have "\<dots> = upgrades (run px evs ?init)" using h by (simp add: run_append)
  finally show "upgrades (run px evs ?init) = 1" using le by simp
qed

text \<open>
  The race of the claim: attempt 0 times out, the retry starts attempt 1, the late \<open>'open'\<close>
  of attempt 0 arrives, and attempt 1 opens twice.
\<close>

theorem upgrade_exactly_once_witness:
  "admissible px2 (handleWebSocketUpgrade px2 True)
     [ConnectionTimeout 0, RetryTimer True, TargetOpen 0 Callback,
      TargetOpen 1 Callback, TargetOpen 1 Callback]
   \<and> \<not> connectionClosed (attempts (run px2
         [ConnectionTimeout 0, RetryTimer True, TargetOpen 0 Callback]
         (handleWebSocketUpgrade px2 True)) ! 1)
   \<and> upgrades (run px2
        [ConnectionTimeout 0, RetryTimer True, TargetOpen 0 Callback,
         TargetOpen 1 Callback, TargetOpen 1 Callback]
        (handleWebSocketUpgrade px2 True)) = 1
   \<and> relaySessions (run px2
        [ConnectionTimeout 0, RetryTimer True, TargetOpen 0 Callback,
         TargetOpen 1 Callback, TargetOpen 1 Callback]
        (handleWebSocketUpgrade px2 True)) = 1"
proof -
  let ?init = "handleWebSocketUpgrade px2 True"
  have s0: "?init = initSession\<lparr>attempts := [newAttempt]\<rparr>"
    by (simp add: handleWebSocketUpgrade_def attemptConnection_def initSession_def)
  have s1: "step px2 (ConnectionTimeout 0) ?init
      = initSession\<lparr>attempts := [newAttempt\<lparr>connectionTimeout := False, connectionClosed := True\<rparr>],
                     retries := 1, pendingRetries := 1, scheduled := [1000]\<rparr>"
    unfolding s0
    by (simp add: onConnectionTimeout_def Let_def newAttempt_def initSession_def
          scheduleRetry_def setAttempt_def)
  have s2: "run px2 [ConnectionTimeout 0, RetryTimer True] ?init
      = initSession\<lparr>attempts := [newAttempt\<lparr>connectionTimeout := False, connectionClosed := True\<rparr>,
                                   newAttempt],
                     retries := 1, pendingRetries := 0, scheduled := [1000]\<rparr>"
    using s1 by (simp add: attemptConnection_def initSession_def del: step.simps(3))
  have s3: "run px2 [ConnectionTimeout 0, RetryTimer True, TargetOpen 0 Callback] ?init
      = initSession\<lparr>attempts := [newAttempt\<lparr>connectionTimeout := False, connectionClosed := True,
                                              targetWs := OPEN\<rparr>, newAttempt],
                     retries := 1, pendingRetries := 0, scheduled := [1000]\<rparr>"
    using s2 run_append[of px2 "[ConnectionTimeout 0, RetryTimer True]" "[TargetOpen 0 Callback]" ?init]
    by (simp add: onTargetOpen_def Let_def newAttempt_def initSession_def setAttempt_def
          del: step.simps(3,4))
  have adm: "admissible px2 ?init
     [ConnectionTimeout 0, RetryTimer True, TargetOpen 0 Callback,
      TargetOpen 1 Callback, TargetOpen 1 Callback]"
    using s2 s3
      admissible_append[of px2 ?init "[ConnectionTimeout 0, RetryTimer True]"
        "[TargetOpen 0 Callback, TargetOpen 1 Callback, TargetOpen 1 Callback]"]
    by (simp add: onTargetOpen_def Let_def newAttempt_def initSession_def setAttempt_def
          del: step.simps(3,4))
  have nc: "\<not> connectionClosed (attempts (run px2
         [ConnectionTimeout 0, RetryTimer True, TargetOpen 0 Callback] ?init) ! 1)"
    unfolding s3 by (simp add: newAttempt_def)
  from upgrade_exactly_once[OF adm] nc
  have "upgrades (run px2
        ([ConnectionTimeout 0, RetryTimer True, TargetOpen 0 Callback]
          @ TargetOpen 1 Callback # [TargetOpen 1 Callback]) ?init) = 1
      \<and> relaySessions (run px2
        ([ConnectionTimeout 0, RetryTimer True, TargetOpen 0 Callback]
          @ TargetOpen 1 Callback # [TargetOpen 1 Callback]) ?init) = 1"
    by (simp del: run.simps step.simps admissible.simps)
       (metis append_Cons append_Nil)
  with adm nc show ?thesis by (simp del: run.simps step.simps admissible.simps)
qed

section \<open>Retries\<close>











section \<open>Authentication errors and status lines\<close>

lemma finished_step:
  assumes "finished s"
  shows "finished (step px ev s) \<and> length (attempts (step px ev s)) = length (attempts s)
       \<and> socketWrites (step px ev s) = socketWrites s
       \<and> socketDestroyed (step px ev s) = socketDestroyed s
       \<and> scheduled (step px ev s) = scheduled s \<and> retries (step px ev s) = retries s
       \<and> upgrades (step px ev s) = upgrades s"
proof -
  have c: "i < length (attempts s) \<Longrightarrow>
      connectionClosed (attempts s ! i) \<and> \<not> connectionTimeout (attempts s ! i)" for i
    using assms by (simp add: finished_def)
  have p: "pendingRetries s = 0" using assms by (simp add: finished_def)
  have keep: "i < length (attempts s) \<Longrightarrow> connectionClosed a \<Longrightarrow> \<not> connectionTimeout a \<Longrightarrow>
      finished (setAttempt i a s)" for i a
    using assms mem_update[of _ "attempts s" i a] by (auto simp: finished_def)
  show ?thesis
  proof (cases ev)
    case (TargetOpen i hu)
    then show ?thesis using assms c[of i] keep[of i "(attempts s ! i)\<lparr>targetWs := OPEN\<rparr>"]
      by (simp add: onTargetOpen_def Let_def)
  next
    case (TargetError i e)
    then show ?thesis using assms c[of i] keep[of i "(attempts s ! i)\<lparr>targetWs := CLOSING\<rparr>"]
      by (simp add: onTargetError_def Let_def)
  next
    case (ConnectionTimeout i)
    then show ?thesis using assms c[of i] by (simp add: onConnectionTimeout_def Let_def)
  next
    case (RetryTimer ok)
    then show ?thesis using assms p by simp
  next
    case SocketError
    have "map onSocketError (attempts s) = attempts s"
      using assms by (auto simp: finished_def onSocketError_def intro: map_idI)
    with SocketError assms show ?thesis by simp
  next
    case (TargetReadyState i st)
    then show ?thesis using assms c[of i] keep[of i "(attempts s ! i)\<lparr>targetWs := st\<rparr>"]
      by simp
  next
    case (ClientReadyState i st)
    then show ?thesis using assms c[of i] keep[of i "(attempts s ! i)\<lparr>clientWs := Some st\<rparr>"]
      by simp
  qed
qed

lemma finished_run:
  "finished s \<Longrightarrow>
   length (attempts (run px evs s)) = length (attempts s)
   \<and> socketWrites (run px evs s) = socketWrites s
   \<and> socketDestroyed (run px evs s) = socketDestroyed s
   \<and> scheduled (run px evs s) = scheduled s \<and> retries (run px evs s) = retries s
   \<and> upgrades (run px evs s) = upgrades s"
proof (induction evs arbitrary: s)
  case Nil
  show ?case by simp
next
  case (Cons ev evs)
  from finished_step[OF Cons.prems, of px ev] Cons.IH[of "step px ev s"]
  show ?case by simp
qed

lemma onTargetError_authentication:
  assumes "isAuthenticationError e" "i < length (attempts s)"
    "\<not> connectionClosed (attempts s ! i)"
  shows "retries (step px (TargetError i e) s) = retries s"
    and "pendingRetries (step px (TargetError i e) s) = pendingRetries s"
    and "scheduled (step px (TargetError i e) s) = scheduled s"
    and "length (attempts (step px (TargetError i e) s)) = length (attempts s)"
    and "connectionClosed (attempts (step px (TargetError i e) s) ! i)"
    and "\<not> connectionTimeout (attempts (step px (TargetError i e) s) ! i)"
    and "socketWrites (step px (TargetError i e) s)
           = (if isUpgraded (attempts s ! i) then socketWrites s
              else socketWrites s @ [unauthorized])"
    and "\<not> isUpgraded (attempts s ! i) \<Longrightarrow> socketDestroyed (step px (TargetError i e) s)"
  using assms by (simp_all add: onTargetError_def Let_def)

text \<open>
  Claim C2. When the first attempt fails with an authentication error, the session has made
  one attempt, answers 401 Unauthorized and destroys the inbound socket, and whatever happens
  afterwards there is no further attempt and no retry is scheduled, for every value of
  \<open>maxRetries\<close>. In any session, an authentication error on an attempt that is not flagged
  closed leaves the retry counter, the timers and the attempts as they are and writes 401
  exactly when that attempt has not upgraded the client.
\<close>

theorem authentication_error_is_fatal:
  assumes "isAuthenticationError e"
  shows "length (attempts (step px (TargetError 0 e) (handleWebSocketUpgrade px True))) = 1
       \<and> socketWrites (step px (TargetError 0 e) (handleWebSocketUpgrade px True)) = [unauthorized]
       \<and> socketDestroyed (step px (TargetError 0 e) (handleWebSocketUpgrade px True))
       \<and> length (attempts (run px evs (step px (TargetError 0 e) (handleWebSocketUpgrade px True)))) = 1
       \<and> scheduled (run px evs (step px (TargetError 0 e) (handleWebSocketUpgrade px True))) = []
       \<and> socketWrites (run px evs (step px (TargetError 0 e) (handleWebSocketUpgrade px True)))
           = [unauthorized]
       \<and> (\<forall>s i. i < length (attempts s) \<and> \<not> connectionClosed (attempts s ! i) \<longrightarrow>
             retries (step px (TargetError i e) s) = retries s
             \<and> pendingRetries (step px (TargetError i e) s) = pendingRetries s
             \<and> length (attempts (step px (TargetError i e) s)) = length (attempts s)
             \<and> socketWrites (step px (TargetError i e) s)
                 = (if isUpgraded (attempts s ! i) then socketWrites s
                    else socketWrites s @ [unauthorized]))"
proof -
  let ?init = "handleWebSocketUpgrade px True"
  let ?after = "step px (TargetError 0 e) ?init"
  have s0: "attempts ?init = [newAttempt]" "socketWrites ?init = []" "scheduled ?init = []"
    "pendingRetries ?init = 0"
    by (simp_all add: handleWebSocketUpgrade_def attemptConnection_def initSession_def)
  have i: "0 < length (attempts ?init)" "\<not> connectionClosed (attempts ?init ! 0)"
    "\<not> isUpgraded (attempts ?init ! 0)"
    by (simp_all add: s0 newAttempt_def)
  note a = onTargetError_authentication[OF assms i(1,2), of px]
  have len: "length (attempts ?after) = 1" using a(4) s0 by simp
  have wr: "socketWrites ?after = [unauthorized]" using a(7) i(3) s0 by simp
  have sc: "scheduled ?after = []" using a(3) s0 by simp
  have fin: "finished ?after"
    unfolding finished_def
  proof (intro conjI ballI)
    show "pendingRetries ?after = 0" using a(2) s0 by simp
    fix b assume "b \<in> set (attempts ?after)"
    with len have "b = attempts ?after ! 0" by (cases "attempts ?after") simp_all
    with a(5,6) show "connectionClosed b" "\<not> connectionTimeout b" by simp_all
  qed
  note r = finished_run[OF fin, of px evs]
  have gen: "\<forall>s i. i < length (attempts s) \<and> \<not> connectionClosed (attempts s ! i) \<longrightarrow>
             retries (step px (TargetError i e) s) = retries s
             \<and> pendingRetries (step px (TargetError i e) s) = pendingRetries s
             \<and> length (attempts (step px (TargetError i e) s)) = length (attempts s)
             \<and> socketWrites (step px (TargetError i e) s)
                 = (if isUpgraded (attempts s ! i) then socketWrites s
                    else socketWrites s @ [unauthorized])"
  proof (intro allI impI)
    fix s :: session and i
    assume h: "i < length (attempts s) \<and> \<not> connectionClosed (attempts s ! i)"
    then have 1: "i < length (attempts s)" and 2: "\<not> connectionClosed (attempts s ! i)"
      by simp_all
    note b = onTargetError_authentication[OF assms 1 2, of px]
    from b(1,2,4,7) show "retries (step px (TargetError i e) s) = retries s
             \<and> pendingRetries (step px (TargetError i e) s) = pendingRetries s
             \<and> length (attempts (step px (TargetError i e) s)) = length (attempts s)
             \<and> socketWrites (step px (TargetError i e) s)
                 = (if isUpgraded (attempts s ! i) then socketWrites s
                    else socketWrites s @ [unauthorized])"
      by blast
  qed
  from len wr a(8)[OF i(3)] r sc gen show ?thesis by (simp del: step.simps)
qed

text \<open>
  A handshake rejected with status 401, followed by events that would otherwise retry.
\<close>

theorem authentication_error_is_fatal_witness:
  "isAuthenticationError rejected
   \<and> length (attempts (run px2 [RetryTimer True, ConnectionTimeout 0, TargetError 0 refused]
        (step px2 (TargetError 0 rejected) (handleWebSocketUpgrade px2 True)))) = 1
   \<and> socketWrites (run px2 [RetryTimer True, ConnectionTimeout 0, TargetError 0 refused]
        (step px2 (TargetError 0 rejected) (handleWebSocketUpgrade px2 True))) = [unauthorized]
   \<and> retries (step px2 (TargetError 0 rejected) (handleWebSocketUpgrade px2 True))
       = retries (handleWebSocketUpgrade px2 True)"
proof -
  have a: "isAuthenticationError rejected"
    by (simp add: rejected_def isAuthenticationError_def)
  have i: "0 < length (attempts (handleWebSocketUpgrade px2 True))
     \<and> \<not> connectionClosed (attempts (handleWebSocketUpgrade px2 True) ! 0)"
    by (simp add: handleWebSocketUpgrade_def attemptConnection_def initSession_def newAttempt_def)
  from authentication_error_is_fatal[OF a, of px2
      "[RetryTimer True, ConnectionTimeout 0, TargetError 0 refused]"] a i
  show ?thesis by (simp del: step.simps run.simps)
qed

lemma statusLines_step:
  "set (socketWrites s) \<subseteq> statusLines \<Longrightarrow> set (socketWrites (step px ev s)) \<subseteq> statusLines"
  by (cases ev)
     (auto simp: statusLines_def onTargetOpen_def onTargetError_def onConnectionTimeout_def
                 attemptConnection_def Let_def split: handleUpgrade.splits)

lemma statusLines_run:
  "set (socketWrites s) \<subseteq> statusLines \<Longrightarrow> set (socketWrites (run px evs s)) \<subseteq> statusLines"
  by (induction evs arbitrary: s) (simp_all add: statusLines_step del: step.simps)

lemma statusLines_onUpgrade: "set (socketWrites (onUpgrade px rq ok)) \<subseteq> statusLines"
  by (simp add: onUpgrade_def handleWebSocketUpgrade_def attemptConnection_def initSession_def
        statusLines_def)

lemma response_step:
  "socketWrites (step px ev s)
     = socketWrites s @ (case response px s ev of None \<Rightarrow> [] | Some line \<Rightarrow> [line])"
proof (cases ev)
  case (TargetOpen i hu)
  then show ?thesis
    by (cases hu) (simp_all add: response_def onTargetOpen_def Let_def)
next
  case (TargetError i e)
  then show ?thesis by (simp add: response_def onTargetError_def Let_def)
next
  case (ConnectionTimeout i)
  then show ?thesis by (auto simp: response_def onConnectionTimeout_def Let_def)
next
  case (RetryTimer ok)
  then show ?thesis by (auto simp: response_def attemptConnection_def)
qed (simp_all add: response_def)

text \<open>
  Claim C7 as stated fails: with no route for \<open>/other\<close> and no default target the listener
  writes 404 Not Found, which is none of 502, 504 and 401; and a first attempt that fails with
  a connection reset is answered 502 at once, with three retries left.
\<close>

theorem failure_status_lines_counterexample:
  "socketWrites (onUpgrade pxNone rqOther True) = [notFound]
   \<and> notFound \<notin> {badGateway, gatewayTimeout, unauthorized}
   \<and> socketWrites (step pxNone (TargetError 0 reset) (handleWebSocketUpgrade pxNone True))
       = [badGateway]
   \<and> retries (step pxNone (TargetError 0 reset) (handleWebSocketUpgrade pxNone True)) = 0
   \<and> maxRetries pxNone = 3"
  by (simp add: onUpgrade_def getTargetForPath_def pxNone_def rqOther_def firstPrefixMatch_def
        sortedEntries_def initSession_def notFound_def badGateway_def gatewayTimeout_def
        unauthorized_def handleWebSocketUpgrade_def attemptConnection_def newAttempt_def
        onTargetError_def Let_def reset_def isAuthenticationError_def isTemporaryError_def
        setAttempt_def respond_def)

text \<open>
  Claim C7, amended. Every status line written to the inbound socket is one of 404, 401, 502
  and 504. When the resolver yields no target the listener writes 404 Not Found and destroys
  the socket, no attempt is made, and nothing else is written afterwards; when it yields one,
  404 is never written. Each event writes what \<open>response\<close> says, and nothing else: 504 for a
  timeout with no retry left, 401 for an authentication error, 502 for any other error that
  is not retried and for an attempt that cannot be started with no retry left.
\<close>

theorem failure_status_lines:
  "set (socketWrites (run px evs (onUpgrade px rq ok))) \<subseteq> statusLines
   \<and> (\<not> truthy (getTargetForPath px (req_pathname rq)) \<longrightarrow>
        socketWrites (run px evs (onUpgrade px rq ok)) = [notFound]
        \<and> socketDestroyed (run px evs (onUpgrade px rq ok))
        \<and> attempts (run px evs (onUpgrade px rq ok)) = [])
   \<and> (truthy (getTargetForPath px (req_pathname rq)) \<longrightarrow>
        notFound \<notin> set (socketWrites (run px evs (onUpgrade px rq ok))))
   \<and> (\<forall>s ev. socketWrites (step px ev s)
         = socketWrites s @ (case response px s ev of None \<Rightarrow> [] | Some line \<Rightarrow> [line]))"
proof (intro conjI impI allI)
  show "socketWrites (step px ev s)
         = socketWrites s @ (case response px s ev of None \<Rightarrow> [] | Some line \<Rightarrow> [line])"
    for s ev by (rule response_step)
next
  assume y: "truthy (getTargetForPath px (req_pathname rq))"
  have nf: "notFound \<notin> {unauthorized, badGateway, gatewayTimeout}"
    by (simp add: notFound_def unauthorized_def badGateway_def gatewayTimeout_def)
  have st: "notFound \<notin> set (socketWrites s) \<Longrightarrow>
      notFound \<notin> set (socketWrites (step px ev s))" for s ev
    using nf by (auto simp: response_step response_def split: event.splits if_splits)
  have rn: "notFound \<notin> set (socketWrites s) \<Longrightarrow>
      notFound \<notin> set (socketWrites (run px evs s))" for s
  proof (induction evs arbitrary: s)
    case Nil
    then show ?case by simp
  next
    case (Cons ev evs)
    from Cons.IH[OF st[OF Cons.prems, of ev]] show ?case by (simp del: step.simps)
  qed
  have "notFound \<notin> set (socketWrites (onUpgrade px rq ok))"
    using y nf
    by (auto simp: onUpgrade_def handleWebSocketUpgrade_def attemptConnection_def initSession_def)
  then show "notFound \<notin> set (socketWrites (run px evs (onUpgrade px rq ok)))" by (rule rn)
next
  show "set (socketWrites (run px evs (onUpgrade px rq ok))) \<subseteq> statusLines"
    by (rule statusLines_run[OF statusLines_onUpgrade])
  assume n: "\<not> truthy (getTargetForPath px (req_pathname rq))"
  then have u: "onUpgrade px rq ok = respond notFound initSession" by (simp add: onUpgrade_def)
  have "finished (respond notFound initSession)" by (simp add: finished_def initSession_def)
  from finished_run[OF this, of px evs]
  show "socketWrites (run px evs (onUpgrade px rq ok)) = [notFound]"
    and "socketDestroyed (run px evs (onUpgrade px rq ok))"
    and "attempts (run px evs (onUpgrade px rq ok)) = []"
    unfolding u by (simp_all add: initSession_def)
qed

text \<open>
  A request without a route, followed by events; and a routed request whose attempts are
  all refused, or whose first attempt is rejected with 401.
\<close>

theorem failure_status_lines_witness:
  "\<not> truthy (getTargetForPath pxNone (req_pathname rqOther))
   \<and> socketWrites (run pxNone [SocketError, RetryTimer True] (onUpgrade pxNone rqOther True))
       = [notFound]
   \<and> truthy (getTargetForPath px2 (req_pathname rq0))
   \<and> notFound \<notin> set (socketWrites (run px2 (errorTrace 0 [refused, refused, refused])
                                (onUpgrade px2 rq0 True)))
   \<and> socketWrites (step px2 (TargetError 0 rejected) (onUpgrade px2 rq0 True)) = [unauthorized]"
proof -
  have n: "\<not> truthy (getTargetForPath pxNone (req_pathname rqOther))"
    by (simp add: getTargetForPath_def pxNone_def rqOther_def firstPrefixMatch_def
          sortedEntries_def)
  have y: "truthy (getTargetForPath px2 (req_pathname rq0))"
    by (simp add: getTargetForPath_def px2_def WebSocketProxy_def rq0_def)
  have u: "onUpgrade px2 rq0 True = initSession\<lparr>attempts := [newAttempt]\<rparr>"
    using y by (simp add: onUpgrade_def handleWebSocketUpgrade_def attemptConnection_def
        initSession_def)
  have r: "response px2 (onUpgrade px2 rq0 True) (TargetError 0 rejected) = Some unauthorized"
    unfolding u
    by (simp add: response_def newAttempt_def initSession_def rejected_def
          isAuthenticationError_def)
  have w0: "socketWrites (onUpgrade px2 rq0 True) = []"
    unfolding u by (simp add: initSession_def)
  note a = failure_status_lines[of pxNone "[SocketError, RetryTimer True]" rqOther True]
  note b = failure_status_lines[of px2 "errorTrace 0 [refused, refused, refused]" rq0 True]
  from a n have 1: "socketWrites (run pxNone [SocketError, RetryTimer True]
      (onUpgrade pxNone rqOther True)) = [notFound]" by blast
  from b y have 2: "notFound \<notin> set (socketWrites (run px2
      (errorTrace 0 [refused, refused, refused]) (onUpgrade px2 rq0 True)))" by blast
  from b have "socketWrites (step px2 (TargetError 0 rejected) (onUpgrade px2 rq0 True))
      = socketWrites (onUpgrade px2 rq0 True)
        @ (case response px2 (onUpgrade px2 rq0 True) (TargetError 0 rejected) of
             None \<Rightarrow> [] | Some line \<Rightarrow> [line])" by blast
  then have 3: "socketWrites (step px2 (TargetError 0 rejected) (onUpgrade px2 rq0 True))
      = [unauthorized]" unfolding r w0 by simp
  from n 1 y 2 3 show ?thesis by blast
qed

section \<open>Closing and keepalive of the relay\<close>

lemma other_neq [simp]: "other sd \<noteq> sd" "sd \<noteq> other sd"
  by (cases sd; simp)+

lemma cleanup_simps [simp]:
  "isProxyActive (cleanup reason r) = False"
  "stateOf (cleanup reason r) = stateOf r"
  "closeCalls (cleanup reason r) = closeCalls r"
  "pings (cleanup reason r) = pings r"
  "pingInterval (cleanup reason r) = pingInterval r"
  "sent (cleanup reason r) = sent r"
  "cleanupLog (cleanup reason r)
     = (if isProxyActive r then cleanupLog r @ [(reason, clientToTarget r, targetToClient r)]
        else cleanupLog r)"
  by (simp_all add: cleanup_def)

lemma closeIfOpen_simps [simp]:
  "isProxyActive (closeIfOpen sd code reason r) = isProxyActive r"
  "pings (closeIfOpen sd code reason r) = pings r"
  "pingInterval (closeIfOpen sd code reason r) = pingInterval r"
  "sent (closeIfOpen sd code reason r) = sent r"
  "cleanupLog (closeIfOpen sd code reason r) = cleanupLog r"
  "closeCalls (closeIfOpen sd code reason r) sd'
     = (if sd' = sd \<and> stateOf r sd = OPEN then closeCalls r sd @ [(code, reason)]
        else closeCalls r sd')"
  by (simp_all add: closeIfOpen_def wsClose_def)

lemma inactive_step:
  "\<not> isProxyActive r \<Longrightarrow>
   \<not> isProxyActive (relayStep arg ev r) \<and> pings (relayStep arg ev r) = pings r
   \<and> cleanupLog (relayStep arg ev r) = cleanupLog r \<and> sent (relayStep arg ev r) = sent r"
  by (cases ev)
     (auto simp: forwardMessage_def onClose_def onError_def onPingInterval_def Let_def
           split: side.splits)

lemma inactive_run:
  "\<not> isProxyActive r \<Longrightarrow>
   \<not> isProxyActive (relayRun arg evs r) \<and> pings (relayRun arg evs r) = pings r
   \<and> cleanupLog (relayRun arg evs r) = cleanupLog r \<and> sent (relayRun arg evs r) = sent r"
proof (induction evs arbitrary: r)
  case Nil
  then show ?case by simp
next
  case (Cons ev evs)
  from inactive_step[OF Cons.prems, of arg ev] Cons.IH[of "relayStep arg ev r"]
  show ?case by simp
qed

lemma relayInv_establish: "establishWebSocketProxy c t = Some r \<Longrightarrow> relayInv r"
  by (auto simp: establishWebSocketProxy_def relayInv_def split: if_splits)

lemma relayInv_step: "relayInv r \<Longrightarrow> relayInv (relayStep arg ev r)"
proof (cases "isProxyActive r")
  case False
  assume "relayInv r"
  with False inactive_step[OF False, of arg ev] show ?thesis by (simp add: relayInv_def)
next
  case True
  assume "relayInv r"
  with True show ?thesis
    by (cases ev)
       (auto simp: relayInv_def forwardMessage_def onClose_def onError_def onPingInterval_def
                   pingIfOpen_def countMessage_def Let_def
             split: side.splits send_result.splits)
qed

lemma relayInv_run: "relayInv r \<Longrightarrow> relayInv (relayRun arg evs r)"
  by (induction evs arbitrary: r) (simp_all add: relayInv_step)

lemma onClose_effect:
  "\<not> isProxyActive (onClose sd code reason r)"
  "closeCalls (onClose sd code reason r) (other sd)
     = (if stateOf r (other sd) = OPEN
        then closeCalls r (other sd) @ [(if code = 0 then 1000 else code, reasonStr reason)]
        else closeCalls r (other sd))"
  "closeCalls (onClose sd code reason r) sd = closeCalls r sd"
  "cleanupLog (onClose sd code reason r)
     = (if isProxyActive r
        then cleanupLog r @ [(case sd of Client \<Rightarrow> ClientClosed code (reasonStr reason)
                                        | Target \<Rightarrow> TargetClosed code (reasonStr reason),
                              clientToTarget r, targetToClient r)]
        else cleanupLog r)"
  by (simp_all add: onClose_def Let_def)




text \<open>
  Claim C9. In every state of a relay, a tick of the interval pings each side that is \<open>OPEN\<close>
  while the relay is active; once the relay is inactive a tick pings nobody and clears the
  interval, and no later event sends a ping.
\<close>

theorem keepalive_ticks:
  assumes "establishWebSocketProxy c t = Some r0"
  shows "let r = relayRun arg pre r0; r' = relayStep arg PingInterval r in
      (isProxyActive r \<longrightarrow>
         (\<forall>sd. pings r' sd = pings r sd + (if stateOf r sd = OPEN then 1 else 0)))
    \<and> (\<not> isProxyActive r \<longrightarrow>
         pings r' = pings r \<and> \<not> pingInterval r' \<and> pings (relayRun arg post r) = pings r)"
proof -
  define r where "r = relayRun arg pre r0"
  have inv: "relayInv r" unfolding r_def
    by (rule relayInv_run[OF relayInv_establish[OF assms]])
  have a: "isProxyActive r \<Longrightarrow>
      pings (onPingInterval r) sd = pings r sd + (if stateOf r sd = OPEN then 1 else 0)" for sd
    using inv by (cases sd) (auto simp: relayInv_def onPingInterval_def pingIfOpen_def)
  have b: "\<not> isProxyActive r \<Longrightarrow> pings (onPingInterval r) = pings r \<and> \<not> pingInterval (onPingInterval r)"
    by (auto simp: onPingInterval_def)
  have c: "\<not> isProxyActive r \<Longrightarrow> pings (relayRun arg post r) = pings r"
    using inactive_run[of r arg post] by simp
  show ?thesis
    unfolding Let_def r_def[symmetric] using a b c by simp
qed

text \<open>
  One tick on a fresh relay, and two ticks after the client has closed.
\<close>

theorem keepalive_ticks_witness:
  "establishWebSocketProxy OPEN OPEN = Some relay0
   \<and> isProxyActive relay0
   \<and> pings (relayStep (\<lambda>d. d) PingInterval relay0) Client = 1
   \<and> pings (relayStep (\<lambda>d. d) PingInterval relay0) Target = 1
   \<and> \<not> isProxyActive (relayRun (\<lambda>d. d) [Close Client 1000 (ReasonBuffer ''bye'')] relay0)
   \<and> pings (relayRun (\<lambda>d. d) [PingInterval, PingInterval]
        (relayRun (\<lambda>d. d) [Close Client 1000 (ReasonBuffer ''bye'')] relay0)) Client = 0"
proof -
  have e: "establishWebSocketProxy OPEN OPEN = Some relay0"
    by (simp add: relay0_def establishWebSocketProxy_def)
  have o: "stateOf relay0 = (\<lambda>sd. OPEN)" "isProxyActive relay0" "pings relay0 = (\<lambda>sd. 0)"
    by (auto simp add: relay0_def establishWebSocketProxy_def split: side.splits)
  have i: "\<not> isProxyActive (relayRun (\<lambda>d. d) [Close Client 1000 (ReasonBuffer ''bye'')] relay0)"
    by (simp add: onClose_effect)
  have p: "pings (relayRun (\<lambda>d. d) [Close Client 1000 (ReasonBuffer ''bye'')] relay0) = (\<lambda>sd. 0)"
    by (simp add: onClose_def Let_def o)
  from keepalive_ticks[OF e, of "\<lambda>d. d" "[]" "[]"] o
  have 1: "pings (relayStep (\<lambda>d. d) PingInterval relay0) Client = 1"
          "pings (relayStep (\<lambda>d. d) PingInterval relay0) Target = 1"
    by (simp_all add: Let_def)
  from keepalive_ticks[OF e, of "\<lambda>d. d" "[Close Client 1000 (ReasonBuffer ''bye'')]" "[PingInterval, PingInterval]"] i p
  have 2: "pings (relayRun (\<lambda>d. d) [PingInterval, PingInterval]
        (relayRun (\<lambda>d. d) [Close Client 1000 (ReasonBuffer ''bye'')] relay0)) Client = 0"
    by (simp add: Let_def)
  from e o(2) 1 i 2 show ?thesis by simp
qed

section \<open>Forwarding of messages\<close>

text \<open>
  What \<open>forwardMessage\<close> does with a message whose destination is open and whose \<open>send\<close>
  returns, what it does when the destination is not open, and the order of what
  \<open>WebSocketProxy\<close> forwards.
\<close>

lemma forwardMessage_sent:
  assumes "isProxyActive r" "stateOf r (other from) = OPEN"
  shows "sent (forwardMessage arg from data Sent r) (other from) = sent r (other from) @ [arg data]"
    and "sent (forwardMessage arg from data Sent r) from = sent r from"
    and "clientToTarget (forwardMessage arg from data Sent r)
           = clientToTarget r + (if from = Client then 1 else 0)"
    and "targetToClient (forwardMessage arg from data Sent r)
           = targetToClient r + (if from = Target then 1 else 0)"
    and "isProxyActive (forwardMessage arg from data Sent r)"
    and "stateOf (forwardMessage arg from data Sent r) = stateOf r"
    and "warnings (forwardMessage arg from data Sent r) = warnings r"
    and "closeCalls (forwardMessage arg from data Sent r) = closeCalls r"
  using assms by (cases "from"; simp add: forwardMessage_def countMessage_def)+

lemma forwardMessage_dropped:
  assumes "isProxyActive r" "stateOf r (other from) \<noteq> OPEN"
  shows "forwardMessage arg from data res r = r\<lparr>warnings := warnings r @ [from]\<rparr>"
  using assms by (simp add: forwardMessage_def)

lemma forwardMessage_fifo:
  assumes "isProxyActive r" "stateOf r Target = OPEN"
  shows "sent (relayRun (\<lambda>d. d) (map (\<lambda>d. Message Client d Sent) ds) r) Target
           = sent r Target @ ds
       \<and> clientToTarget (relayRun (\<lambda>d. d) (map (\<lambda>d. Message Client d Sent) ds) r)
           = clientToTarget r + length ds"
  using assms
proof (induction ds arbitrary: r)
  case Nil
  show ?case by simp
next
  case (Cons d ds)
  note f = forwardMessage_sent[of r Client "\<lambda>d. d" d, simplified, OF Cons.prems]
  have a: "isProxyActive (forwardMessage (\<lambda>d. d) Client d Sent r)"
    and b: "stateOf (forwardMessage (\<lambda>d. d) Client d Sent r) Target = OPEN"
    using f Cons.prems by simp_all
  from Cons.IH[OF a b] f show ?case by simp
qed

text \<open>
  Claim C6 at a message of the single byte \<open>0xFF\<close>: \<open>forwardMessage\<close> of \<open>Proxy\<close> sends
  the string that \<open>toString\<close> decodes from it, which is not the \<open>Buffer\<close> it received, where
  \<open>forwardMessage\<close> of \<open>WebSocketProxy\<close> sends the \<open>Buffer\<close> itself.
\<close>

theorem forwardMessage_Proxy_reencodes:
  "sent (forwardMessage_Proxy decode Client (Buffer [CHR 0xFF]) Sent relay0) Target
     = [Str (decode [CHR 0xFF])]
   \<and> Str (decode [CHR 0xFF]) \<noteq> Buffer [CHR 0xFF]
   \<and> sent (forwardMessage_WebSocketProxy Client (Buffer [CHR 0xFF]) Sent relay0) Target
     = [Buffer [CHR 0xFF]]"
  by (simp add: forwardMessage_Proxy_def forwardMessage_WebSocketProxy_def forwardMessage_def
        relay0_def establishWebSocketProxy_def countMessage_def)

end
